theory Spec2Isabelle
  imports Main "HOL-Library.AList"
begin

section \<open>Python strings and dictionaries\<close>

text \<open>
  The importer of \<^verbatim>\<open>wagtail_wordpress_import/importers/wordpress.py\<close> works on
  Python strings and dictionaries. A string is a \<^typ>\<open>string\<close>; a dictionary whose
  iteration order is used is an association list in insertion order, updated with
  \<^const>\<open>AList.update\<close> (a key that is already present keeps its position, a new key goes
  to the end, as in Python); a dictionary that is only read by key is a map.
\<close>

text \<open>
  The exceptions that can leave the importer: the first three are raised by its own
  statements and by \<^verbatim>\<open>strptime\<close>, \<^verbatim>\<open>SystemExit\<close> by \<^verbatim>\<open>exit()\<close>, the last two are
  those \<^verbatim>\<open>make_aware\<close> can raise for a local time that does not exist or is ambiguous.
\<close>

datatype error =
  KeyError | AttributeError | ValueError | SystemExit | NonExistentTimeError | AmbiguousTimeError

text \<open>\<^verbatim>\<open>s.split(c)\<close> for a one-character separator: never the empty list.\<close>

fun split_on :: "char \<Rightarrow> string \<Rightarrow> string list" where
  "split_on c [] = [[]]"
| "split_on c (x # xs) =
     (if x = c then [] # split_on c xs
      else (case split_on c xs of [] \<Rightarrow> [[x]] | w # ws \<Rightarrow> (x # w) # ws))"

text \<open>\<^verbatim>\<open>sep.join(parts)\<close>.\<close>

fun join :: "string \<Rightarrow> string list \<Rightarrow> string" where
  "join sep [] = []"
| "join sep [w] = w"
| "join sep (w # ws) = w @ sep @ join sep ws"

section \<open>Mapping inversion\<close>

text \<open>
  \<^verbatim>\<open>
  def map_item_inverse(self):
      inverse = {}
      for key, value in self.mapping_item.items():
          value = value.split(",")
          if len(value) == 1:
              inverse[value[0]] = key
          else:
              for i in range(len(value)):
                  inverse[value[i]] = key
      return inverse
  \<close>
\<close>

fun assign_each :: "string list \<Rightarrow> string \<Rightarrow> (string \<times> string) list \<Rightarrow> (string \<times> string) list" where
  "assign_each [] key acc = acc"
| "assign_each (a # as) key acc = assign_each as key (AList.update a key acc)"

definition inverse_entry :: "string \<Rightarrow> string \<Rightarrow> (string \<times> string) list \<Rightarrow> (string \<times> string) list" where
  "inverse_entry key value acc =
     (let value = split_on CHR '','' value
      in if length value = 1 then AList.update (hd value) key acc
         else assign_each value key acc)"

fun inverse_loop :: "(string \<times> string) list \<Rightarrow> (string \<times> string) list \<Rightarrow> (string \<times> string) list" where
  "inverse_loop [] acc = acc"
| "inverse_loop ((key, value) # rest) acc = inverse_loop rest (inverse_entry key value acc)"

definition map_item_inverse :: "(string \<times> string) list \<Rightarrow> (string \<times> string) list" where
  "map_item_inverse mapping_item = inverse_loop mapping_item []"

section \<open>Values, pages and external collaborators\<close>

text \<open>
  A raw record (\<^verbatim>\<open>item\<close>, the result of \<^verbatim>\<open>node_to_dict\<close>) is a dictionary from
  field names to text. \<^verbatim>\<open>item.get(k)\<close> is the map applied to \<open>k\<close>, \<^verbatim>\<open>item[k]\<close>
  raises \<^verbatim>\<open>KeyError\<close> when \<open>k\<close> is missing.
\<close>

type_synonym item = "string \<rightharpoonup> string"

record datetime =
  dt_year :: nat
  dt_month :: nat
  dt_day :: nat
  dt_hour :: nat
  dt_minute :: nat
  dt_second :: nat

text \<open>The values stored on a page: text, a timezone-aware timestamp, a flag.\<close>

datatype 'd pyval = VStr string | VDate 'd | VBool bool

text \<open>
  A page object: its attributes and the parent it was added under. The target store
  is the list of the page model's rows in primary-key order.
\<close>

record 'd page =
  attrs :: "string \<rightharpoonup> 'd pyval"
  parent :: "nat option"

text \<open>
  The functions the importer calls but does not define (Django, Wagtail, the package's
  own filters and block builder) are parameters: \<^verbatim>\<open>slugify\<close> receives whatever Python
  value the importer passes (a string or \<^verbatim>\<open>None\<close>); \<^verbatim>\<open>make_aware\<close> may raise;
  \<^verbatim>\<open>build\<close> is \<^verbatim>\<open>BlockBuilder(value).build()\<close>; \<^verbatim>\<open>json_dumps\<close> and
  \<^verbatim>\<open>json_dumps_indent\<close> are \<^verbatim>\<open>json.dumps(blocks)\<close> and
  \<^verbatim>\<open>json.dumps(blocks, indent=4)\<close>; \<^verbatim>\<open>unpublish\<close> is the page's own method.
\<close>

record ('d, 'b) externals =
  slugify :: "string option \<Rightarrow> string"
  make_aware :: "datetime \<Rightarrow> error + 'd"
  linebreaks_wp :: "string \<Rightarrow> string"
  fix_styles :: "string \<Rightarrow> string"
  bleach_clean :: "string \<Rightarrow> string"
  build :: "string \<Rightarrow> 'b"
  json_dumps :: "'b \<Rightarrow> string"
  json_dumps_indent :: "'b \<Rightarrow> string"
  unpublish :: "'d page \<Rightarrow> 'd page"

text \<open>Python's \<^verbatim>\<open>str(value)\<close> on a string or \<^verbatim>\<open>None\<close>.\<close>

definition py_str :: "string option \<Rightarrow> string" where
  "py_str value = (case value of None \<Rightarrow> ''None'' | Some s \<Rightarrow> s)"

text \<open>\<^verbatim>\<open>item.get(inverse.get(name))\<close>: a missing key gives \<^verbatim>\<open>None\<close> at either step.\<close>

definition item_get :: "item \<Rightarrow> string option \<Rightarrow> string option" where
  "item_get item key = (case key of None \<Rightarrow> None | Some k \<Rightarrow> item k)"

section \<open>Slug normalizer\<close>

text \<open>
  \<^verbatim>\<open>
  def parse_slug(self, value, title):
      changed = None
      if not value:
          slug = slugify(title)
          changed = "blank slug"
      else:
          slug = slugify(value)
          changed = "OK"
      if value and slug != value:
          changed = "illegal chars found"
      return slug, changed
  \<close>
  A value is falsy when it is \<^verbatim>\<open>None\<close> or the empty string.
\<close>

definition truthy :: "string option \<Rightarrow> bool" where
  "truthy value = (case value of None \<Rightarrow> False | Some s \<Rightarrow> s \<noteq> [])"

definition parse_slug :: "('d, 'b) externals \<Rightarrow> string option \<Rightarrow> string option \<Rightarrow> string \<times> string" where
  "parse_slug ext value title =
     (let (slug, changed) =
            (if \<not> truthy value then (slugify ext title, ''blank slug'')
             else (slugify ext value, ''OK''));
          changed = (if truthy value \<and> Some slug \<noteq> value then ''illegal chars found'' else changed)
      in (slug, changed))"

section \<open>Content normalizer\<close>

text \<open>
  \<^verbatim>\<open>
  def parse_stream_fields(self, value):
      value = linebreaks_wp(str(value))
      value = fix_styles(str(value))
      value = bleach_clean(str(value))
      blocks = BlockBuilder(value).build()
      return json.dumps(blocks), value, blocks
  \<close>
\<close>

definition parse_stream_fields :: "('d, 'b) externals \<Rightarrow> string option \<Rightarrow> string \<times> string \<times> 'b" where
  "parse_stream_fields ext value =
     (let value = linebreaks_wp ext (py_str value);
          value = fix_styles ext value;
          value = bleach_clean ext value;
          blocks = build ext value
      in (json_dumps ext blocks, value, blocks))"

section \<open>Date normalizer\<close>

text \<open>
  \<^verbatim>\<open>datetime.strptime(s, "%Y-%m-%dT%H:%M:%S")\<close> compiles the format to a regular
  expression, one group of alternatives per directive, matched case-insensitively from
  the start of the text with the alternatives tried left to right; text left over after
  the match, a date that does not exist and a second above 59 are a \<^verbatim>\<open>ValueError\<close>.
  The groups are
  \<^verbatim>\<open>Y: \d\d\d\d   m: 1[0-2]|0[1-9]|[1-9]   d: 3[0-1]|[1-2]\d|0[1-9]|[1-9]| [1-9]\<close>
  \<^verbatim>\<open>H: 2[0-3]|[0-1]\d|\d   M: [0-5]\d|\d   S: 6[0-1]|[0-5]\d|\d\<close>.
\<close>

definition between :: "char \<Rightarrow> char \<Rightarrow> char \<Rightarrow> bool" where
  "between lo hi c = ((of_char lo :: nat) \<le> of_char c \<and> (of_char c :: nat) \<le> of_char hi)"

definition is_digit :: "char \<Rightarrow> bool" where
  "is_digit = between CHR ''0'' CHR ''9''"

definition one_of :: "string \<Rightarrow> char \<Rightarrow> bool" where
  "one_of cs c = (c \<in> set cs)"

datatype token = Group "(char \<Rightarrow> bool) list list" | Lit "char \<Rightarrow> bool"

text \<open>One alternative: a sequence of character classes matched at the start of the text.\<close>

fun classes :: "(char \<Rightarrow> bool) list \<Rightarrow> string \<Rightarrow> (string \<times> string) list" where
  "classes [] s = [([], s)]"
| "classes (p # ps) [] = []"
| "classes (p # ps) (c # cs) =
     (if p c then map (\<lambda>(w, r). (c # w, r)) (classes ps cs) else [])"

text \<open>A group: the matches of its alternatives, the leftmost alternative first.\<close>

definition group_matches :: "(char \<Rightarrow> bool) list list \<Rightarrow> string \<Rightarrow> (string \<times> string) list" where
  "group_matches alts s = concat (map (\<lambda>alt. classes alt s) alts)"

text \<open>All ways a token sequence matches a prefix of the text, the regex engine's first choice first.\<close>

fun regex_match :: "token list \<Rightarrow> string \<Rightarrow> (string list \<times> string) list" where
  "regex_match [] s = [([], s)]"
| "regex_match (Lit p # ts) s =
     (case s of [] \<Rightarrow> [] | c # cs \<Rightarrow> if p c then regex_match ts cs else [])"
| "regex_match (Group alts # ts) s =
     concat (map (\<lambda>(w, r). map (\<lambda>(gs, r'). (w # gs, r')) (regex_match ts r))
                 (group_matches alts s))"

definition re_Y :: token where
  "re_Y = Group [[is_digit, is_digit, is_digit, is_digit]]"

definition re_m :: token where
  "re_m = Group [[one_of ''1'', between CHR ''0'' CHR ''2''],
                 [one_of ''0'', between CHR ''1'' CHR ''9''],
                 [between CHR ''1'' CHR ''9'']]"

definition re_d :: token where
  "re_d = Group [[one_of ''3'', between CHR ''0'' CHR ''1''],
                 [between CHR ''1'' CHR ''2'', is_digit],
                 [one_of ''0'', between CHR ''1'' CHR ''9''],
                 [between CHR ''1'' CHR ''9''],
                 [one_of '' '', between CHR ''1'' CHR ''9'']]"

definition re_H :: token where
  "re_H = Group [[one_of ''2'', between CHR ''0'' CHR ''3''],
                 [between CHR ''0'' CHR ''1'', is_digit],
                 [is_digit]]"

definition re_M :: token where
  "re_M = Group [[between CHR ''0'' CHR ''5'', is_digit], [is_digit]]"

definition re_S :: token where
  "re_S = Group [[one_of ''6'', between CHR ''0'' CHR ''1''],
                 [between CHR ''0'' CHR ''5'', is_digit],
                 [is_digit]]"

definition format_regex :: "token list" where
  "format_regex =
     [re_Y, Lit (one_of ''-''), re_m, Lit (one_of ''-''), re_d, Lit (one_of ''Tt''),
      re_H, Lit (one_of '':''), re_M, Lit (one_of '':''), re_S]"

text \<open>\<^verbatim>\<open>int(text)\<close> on a group: decimal digits, after an optional leading blank.\<close>

definition py_int :: "string \<Rightarrow> nat" where
  "py_int w = foldl (\<lambda>n c. 10 * n + (of_char c - 48)) 0 (dropWhile (\<lambda>c. c = CHR '' '') w)"

definition is_leap :: "nat \<Rightarrow> bool" where
  "is_leap y = (if y mod 100 = 0 then y mod 400 = 0 else y mod 4 = 0)"

definition days_in_month :: "nat \<Rightarrow> nat \<Rightarrow> nat" where
  "days_in_month y m =
     (if m = 2 then (if is_leap y then 29 else 28)
      else if m = 4 \<or> m = 6 \<or> m = 9 \<or> m = 11 then 30 else 31)"

text \<open>The range checks of the \<^verbatim>\<open>date\<close> and \<^verbatim>\<open>datetime\<close> constructors.\<close>

definition valid_datetime :: "datetime \<Rightarrow> bool" where
  "valid_datetime t =
     (1 \<le> dt_year t \<and> dt_year t \<le> 9999 \<and> 1 \<le> dt_month t \<and> dt_month t \<le> 12 \<and>
      1 \<le> dt_day t \<and> dt_day t \<le> days_in_month (dt_year t) (dt_month t) \<and>
      dt_hour t \<le> 23 \<and> dt_minute t \<le> 59 \<and> dt_second t \<le> 59)"

definition strptime :: "string \<Rightarrow> error + datetime" where
  "strptime data_string =
     (case regex_match format_regex data_string of
        [] \<Rightarrow> Inl ValueError
      | (groups, rest) # _ \<Rightarrow>
          if rest \<noteq> [] then Inl ValueError
          else (case map py_int groups of
                  [y, m, d, H, M, S] \<Rightarrow>
                    (let t = \<lparr>dt_year = y, dt_month = m, dt_day = d,
                               dt_hour = H, dt_minute = M, dt_second = S\<rparr>
                     in if valid_datetime t then Inr t else Inl ValueError)
                | _ \<Rightarrow> Inl ValueError))"

text \<open>
  \<^verbatim>\<open>
  def parse_date(self, value):
      valid = True
      if value == "0000-00-00 00:00:00":
          value = "1900-01-01 00:00:00"
          valid = False
      date_utc = "T".join(value.split(" "))
      formatted = make_aware(datetime.strptime(date_utc, "%Y-%m-%dT%H:%M:%S"))
      return formatted, valid
  \<close>
  \<^verbatim>\<open>None.split\<close> is an \<^verbatim>\<open>AttributeError\<close>.
\<close>

definition parse_date :: "('d, 'b) externals \<Rightarrow> string option \<Rightarrow> error + ('d \<times> bool)" where
  "parse_date ext value =
     (let (value, valid) =
            (if value = Some ''0000-00-00 00:00:00'' then (Some ''1900-01-01 00:00:00'', False)
             else (value, True))
      in case value of
           None \<Rightarrow> Inl AttributeError
         | Some v \<Rightarrow>
             (let date_utc = join ''T'' (split_on CHR '' '' v)
              in case strptime date_utc of
                   Inl e \<Rightarrow> Inl e
                 | Inr t \<Rightarrow> (case make_aware ext t of
                               Inl e \<Rightarrow> Inl e
                             | Inr formatted \<Rightarrow> Inr (formatted, valid))))"

text \<open>
  The spec's well-formed date, in its words: text of the form \<^verbatim>\<open>YYYY-MM-DD HH:MM:SS\<close>,
  that is nineteen characters, fourteen decimal digits with the five separators in their
  places. \<open>timestamp_of\<close> reads the six numbers of such a text; whether they name a day
  of the calendar and a time of the day is \<open>valid_datetime\<close> of that reading, which the
  shape alone does not give (\<^verbatim>\<open>2021-02-30 10:00:00\<close> and the sentinel have the shape).
\<close>

definition timestamp_of :: "string \<Rightarrow> datetime" where
  "timestamp_of s =
     \<lparr>dt_year = py_int (take 4 s), dt_month = py_int (take 2 (drop 5 s)),
      dt_day = py_int (take 2 (drop 8 s)), dt_hour = py_int (take 2 (drop 11 s)),
      dt_minute = py_int (take 2 (drop 14 s)), dt_second = py_int (take 2 (drop 17 s))\<rparr>"

definition wellformed_date :: "string \<Rightarrow> bool" where
  "wellformed_date s =
     (length s = 19 \<and>
      list_all (\<lambda>i. is_digit (s ! i)) [0, 1, 2, 3, 5, 6, 8, 9, 11, 12, 14, 15, 17, 18] \<and>
      s ! 4 = CHR ''-'' \<and> s ! 7 = CHR ''-'' \<and> s ! 10 = CHR '' '' \<and>
      s ! 13 = CHR '':'' \<and> s ! 16 = CHR '':'')"

text \<open>A result paired with the validity flag; an error stays an error.\<close>

definition with_flag :: "bool \<Rightarrow> error + 'd \<Rightarrow> error + ('d \<times> bool)" where
  "with_flag valid r = (case r of Inl e \<Rightarrow> Inl e | Inr formatted \<Rightarrow> Inr (formatted, valid))"

text \<open>
  The spec's identifier-safe string, read as Django's slug validator reads a slug: one or
  more characters, each a letter, a digit, a hyphen or an underscore.
\<close>

definition slug_char :: "char \<Rightarrow> bool" where
  "slug_char c =
     (between CHR ''a'' CHR ''z'' c \<or> between CHR ''A'' CHR ''Z'' c \<or> is_digit c \<or> one_of ''-_'' c)"

definition identifier_safe :: "string \<Rightarrow> bool" where
  "identifier_safe s = (s \<noteq> [] \<and> list_all slug_char s)"

section \<open>The importer and record transformation\<close>

text \<open>
  The mapping (\<^verbatim>\<open>wordpress_mapping.mapping\<close>) is configuration: a dictionary with the
  field map under \<^verbatim>\<open>"item"\<close> and three comma-separated lists of field names.
\<close>

record mapping =
  item_map :: "(string \<times> string) list"
  validate_date :: string
  validate_slug :: string
  stream_fields :: string

text \<open>A value of the audit log: a flag or text.\<close>

datatype logval = LBool bool | LStr string

text \<open>A logged item: the raw record and the dictionary stored under its \<^verbatim>\<open>"log"\<close> key.\<close>

record log_entry =
  logged_item :: item
  log_result :: string
  log_reason :: string
  log_datecheck :: logval
  log_slugcheck :: logval

record importer =
  mapping_item :: "(string \<times> string) list"
  mapping_valid_date :: string
  mapping_valid_slug :: string
  mapping_stream_fields :: string
  mapping_item_inverse :: "(string \<times> string) list"
  log_processed :: int
  log_imported :: int
  log_skipped :: int
  logged_items :: "log_entry list"

text \<open>\<^verbatim>\<open>WordpressImporter.__init__\<close>.\<close>

definition init :: "mapping \<Rightarrow> importer" where
  "init m =
     \<lparr>mapping_item = item_map m,
      mapping_valid_date = validate_date m,
      mapping_valid_slug = validate_slug m,
      mapping_stream_fields = stream_fields m,
      mapping_item_inverse = map_item_inverse (item_map m),
      log_processed = 0, log_imported = 0, log_skipped = 0, logged_items = []\<rparr>"

text \<open>
  \<^verbatim>\<open>
  def get_values(self, item):
      page_values = {}
      date_valid = []
      date_fields = self.mapping_valid_date.split(",")
      slug_changed = False
      slug_fields = self.mapping_valid_slug.split(",")
      stream_fields = self.mapping_stream_fields.split(",")
      for field, mapped in self.mapping_item_inverse.items():
          page_values[field] = item[mapped]
      for html in stream_fields:
          sfv, value, blocks = self.parse_stream_fields(
              item.get(self.mapping_item_inverse.get(html)))
          page_values[html] = sfv
          page_values["wp_processed_content"] = value
          page_values["wp_block_json"] = json.dumps(blocks, indent=4)
      for df in date_fields:
          date = self.parse_date(item.get(self.mapping_item_inverse.get(df)))
          page_values[df] = date[0]
          date_valid.append(date[1])
      for sf in slug_fields:
          slug = self.parse_slug(
              item.get(self.mapping_item_inverse.get(sf)), item.get("title"))
          page_values[sf] = slug[0]
          slug_changed = slug[1]
      date_valid = all(date_valid)
      return page_values, date_valid, slug_changed
  \<close>
\<close>

fun copy_fields :: "(string \<times> string) list \<Rightarrow> item \<Rightarrow> (string \<rightharpoonup> 'd pyval) \<Rightarrow> error + (string \<rightharpoonup> 'd pyval)" where
  "copy_fields [] item page_values = Inr page_values"
| "copy_fields ((field, mapped) # rest) item page_values =
     (case item mapped of
        None \<Rightarrow> Inl KeyError
      | Some v \<Rightarrow> copy_fields rest item (page_values(field \<mapsto> VStr v)))"

fun stream_loop :: "('d, 'b) externals \<Rightarrow> (string \<times> string) list \<Rightarrow> string list \<Rightarrow> item \<Rightarrow>
    (string \<rightharpoonup> 'd pyval) \<Rightarrow> (string \<rightharpoonup> 'd pyval)" where
  "stream_loop ext inverse_map [] item page_values = page_values"
| "stream_loop ext inverse_map (html # rest) item page_values =
     (case parse_stream_fields ext (item_get item (map_of inverse_map html)) of
        (sfv, value, blocks) \<Rightarrow>
          stream_loop ext inverse_map rest item
            (page_values(html \<mapsto> VStr sfv,
                         ''wp_processed_content'' \<mapsto> VStr value,
                         ''wp_block_json'' \<mapsto> VStr (json_dumps_indent ext blocks))))"

fun date_loop :: "('d, 'b) externals \<Rightarrow> (string \<times> string) list \<Rightarrow> string list \<Rightarrow> item \<Rightarrow>
    (string \<rightharpoonup> 'd pyval) \<times> bool list \<Rightarrow> error + ((string \<rightharpoonup> 'd pyval) \<times> bool list)" where
  "date_loop ext inverse_map [] item acc = Inr acc"
| "date_loop ext inverse_map (df # rest) item (page_values, date_valid) =
     (case parse_date ext (item_get item (map_of inverse_map df)) of
        Inl e \<Rightarrow> Inl e
      | Inr date \<Rightarrow>
          date_loop ext inverse_map rest item
            (page_values(df \<mapsto> VDate (fst date)), date_valid @ [snd date]))"

fun slug_loop :: "('d, 'b) externals \<Rightarrow> (string \<times> string) list \<Rightarrow> string list \<Rightarrow> item \<Rightarrow>
    (string \<rightharpoonup> 'd pyval) \<times> logval \<Rightarrow> (string \<rightharpoonup> 'd pyval) \<times> logval" where
  "slug_loop ext inverse_map [] item acc = acc"
| "slug_loop ext inverse_map (sf # rest) item (page_values, slug_changed) =
     (let slug = parse_slug ext (item_get item (map_of inverse_map sf)) (item ''title'')
      in slug_loop ext inverse_map rest item
           (page_values(sf \<mapsto> VStr (fst slug)), LStr (snd slug)))"

definition get_values :: "('d, 'b) externals \<Rightarrow> importer \<Rightarrow> item \<Rightarrow>
    error + ((string \<rightharpoonup> 'd pyval) \<times> bool \<times> logval)" where
  "get_values ext self item =
     (let date_fields = split_on CHR '','' (mapping_valid_date self);
          slug_fields = split_on CHR '','' (mapping_valid_slug self);
          stream_fields = split_on CHR '','' (mapping_stream_fields self)
      in case copy_fields (mapping_item_inverse self) item Map.empty of
           Inl e \<Rightarrow> Inl e
         | Inr page_values \<Rightarrow>
             (let page_values = stream_loop ext (mapping_item_inverse self) stream_fields item page_values
              in case date_loop ext (mapping_item_inverse self) date_fields item (page_values, []) of
                   Inl e \<Rightarrow> Inl e
                 | Inr (page_values, date_valid) \<Rightarrow>
                     (let (page_values, slug_changed) =
                            slug_loop ext (mapping_item_inverse self) slug_fields item
                              (page_values, LBool False)
                      in Inr (page_values, list_all (\<lambda>b. b) date_valid, slug_changed))))"

text \<open>The raw text that feeds a target field: \<^verbatim>\<open>item.get(self.mapping_item_inverse.get(name))\<close>.\<close>

definition source_value :: "importer \<Rightarrow> item \<Rightarrow> string \<Rightarrow> string option" where
  "source_value self item name = item_get item (map_of (mapping_item_inverse self) name)"

section \<open>Reconciliation\<close>

text \<open>
  \<^verbatim>\<open>
  def create_page(self, values, status):
      obj = self.page_model_instance(**values)
      if status == "draft":
          setattr(obj, "live", False)
      else:
          setattr(obj, "live", True)
      self.parent_page_obj.add_child(instance=obj)
      return obj, "created"
  \<close>
  \<^verbatim>\<open>add_child\<close> stores the object as a new row under the parent.
\<close>

definition create_page :: "nat \<Rightarrow> 'd page list \<Rightarrow> (string \<rightharpoonup> 'd pyval) \<Rightarrow> string option \<Rightarrow>
    ('d page \<times> string) \<times> 'd page list" where
  "create_page parent_page_obj store values status =
     (let obj = \<lparr>attrs = values, parent = None\<rparr>;
          obj = (if status = Some ''draft''
                 then obj\<lparr>attrs := (attrs obj)(''live'' \<mapsto> VBool False)\<rparr>
                 else obj\<lparr>attrs := (attrs obj)(''live'' \<mapsto> VBool True)\<rparr>);
          obj = obj\<lparr>parent := Some parent_page_obj\<rparr>
      in ((obj, ''created''), store @ [obj]))"

text \<open>
  \<^verbatim>\<open>
  def update_page(self, page_exists, values, status):
      obj = page_exists
      for key in values.keys():
          setattr(obj, key, values[key])
      obj.save()
      if status == "draft":
          obj.unpublish()
      return obj, "updated"
  \<close>
  \<^verbatim>\<open>page_exists\<close> is the row at index \<open>i\<close> of the store; \<^verbatim>\<open>save\<close> writes the object
  back to its row, and so does \<^verbatim>\<open>unpublish\<close> after changing it.
\<close>

definition update_page :: "('d, 'b) externals \<Rightarrow> 'd page list \<Rightarrow> nat \<Rightarrow> (string \<rightharpoonup> 'd pyval) \<Rightarrow>
    string option \<Rightarrow> ('d page \<times> string) \<times> 'd page list" where
  "update_page ext store i values status =
     (let obj = store ! i;
          obj = obj\<lparr>attrs := attrs obj ++ values\<rparr>;
          store = store[i := obj];
          obj = (if status = Some ''draft'' then unpublish ext obj else obj);
          store = store[i := obj]
      in ((obj, ''updated''), store))"

section \<open>The import session\<close>

text \<open>
  The keyword arguments of \<^verbatim>\<open>run\<close>, with the two lookups it starts with already
  resolved: \<open>model_found\<close> tells whether \<^verbatim>\<open>apps.get_model\<close> finds the page model,
  \<open>parent_page\<close> is the page \<^verbatim>\<open>Page.objects.get(pk=parent_id)\<close> returns, if any.
\<close>

record kwargs =
  model_found :: bool
  parent_page :: "nat option"
  page_types :: "string list"
  page_statuses :: "string list"

text \<open>\<^verbatim>\<open>item.get(key) in names\<close>: \<^verbatim>\<open>None\<close> is in no list of strings.\<close>

definition py_in :: "string option \<Rightarrow> string list \<Rightarrow> bool" where
  "py_in value names = (case value of None \<Rightarrow> False | Some s \<Rightarrow> s \<in> set names)"

definition eligible :: "kwargs \<Rightarrow> item \<Rightarrow> bool" where
  "eligible kw item =
     (py_in (item ''wp:post_type'') (page_types kw) \<and> py_in (item ''wp:status'') (page_statuses kw))"

text \<open>
  \<^verbatim>\<open>objects.filter(wp_post_id=item.get("wp:post_id")).first()\<close>: the first row whose
  \<^verbatim>\<open>wp_post_id\<close> is the item's identifier; for \<^verbatim>\<open>None\<close>, the first row without one.
\<close>

definition has_post_id :: "string option \<Rightarrow> 'd page \<Rightarrow> bool" where
  "has_post_id post_id p = (attrs p ''wp_post_id'' = map_option VStr post_id)"

fun first_index :: "('a \<Rightarrow> bool) \<Rightarrow> 'a list \<Rightarrow> nat option" where
  "first_index P [] = None"
| "first_index P (x # xs) = (if P x then Some 0 else map_option Suc (first_index P xs))"

text \<open>
  The body of the loop of \<^verbatim>\<open>run\<close> for one item:
  \<^verbatim>\<open>
  self.log_processed += 1
  if (item.get("wp:post_type") in kwargs["page_types"]
          and item.get("wp:status") in kwargs["page_statuses"]):
      item_dict, dates_valid, slugs_valid = self.get_values(item)
      page_exists = self.page_model_instance.objects.filter(
          wp_post_id=item.get("wp:post_id")).first()
      if page_exists:
          self.update_page(page_exists, item_dict, item.get("wp:status"))
          item["log"] = {"result": "updated", "reason": "existed",
                         "datecheck": dates_valid, "slugcheck": slugs_valid}
      else:
          self.create_page(item_dict, item.get("wp:status"))
          item["log"] = {"result": "created", "reason": "new",
                         "datecheck": dates_valid, "slugcheck": slugs_valid}
      self.log_imported += 1
  else:
      item["log"] = {"result": "skipped", "reason": "no title or status match",
                     "datecheck": "", "slugcheck": ""}
      self.log_skipped += 1
  self.logged_items.append(item)
  \<close>
\<close>

definition run_item :: "('d, 'b) externals \<Rightarrow> kwargs \<Rightarrow> nat \<Rightarrow> item \<Rightarrow> importer \<times> 'd page list \<Rightarrow>
    error + (importer \<times> 'd page list)" where
  "run_item ext kw parent_page_obj item st =
     (let (self, store) = st;
          self = self\<lparr>log_processed := log_processed self + 1\<rparr>
      in if eligible kw item then
           (case get_values ext self item of
              Inl e \<Rightarrow> Inl e
            | Inr (item_dict, dates_valid, slugs_valid) \<Rightarrow>
                (let page_exists = first_index (has_post_id (item ''wp:post_id'')) store;
                     (store, entry) =
                       (case page_exists of
                          Some i \<Rightarrow>
                            (snd (update_page ext store i item_dict (item ''wp:status'')),
                             \<lparr>logged_item = item, log_result = ''updated'', log_reason = ''existed'',
                              log_datecheck = LBool dates_valid, log_slugcheck = slugs_valid\<rparr>)
                        | None \<Rightarrow>
                            (snd (create_page parent_page_obj store item_dict (item ''wp:status'')),
                             \<lparr>logged_item = item, log_result = ''created'', log_reason = ''new'',
                              log_datecheck = LBool dates_valid, log_slugcheck = slugs_valid\<rparr>));
                     self = self\<lparr>log_imported := log_imported self + 1\<rparr>
                 in Inr (self\<lparr>logged_items := logged_items self @ [entry]\<rparr>, store)))
         else
           (let entry = \<lparr>logged_item = item, log_result = ''skipped'',
                         log_reason = ''no title or status match'',
                         log_datecheck = LStr [], log_slugcheck = LStr []\<rparr>;
                self = self\<lparr>log_skipped := log_skipped self + 1\<rparr>
            in Inr (self\<lparr>logged_items := logged_items self @ [entry]\<rparr>, store)))"

fun run_loop :: "('d, 'b) externals \<Rightarrow> kwargs \<Rightarrow> nat \<Rightarrow> item list \<Rightarrow> importer \<times> 'd page list \<Rightarrow>
    error + (importer \<times> 'd page list)" where
  "run_loop ext kw parent_page_obj [] st = Inr st"
| "run_loop ext kw parent_page_obj (item # rest) st =
     (case run_item ext kw parent_page_obj item st of
        Inl e \<Rightarrow> Inl e
      | Inr st' \<Rightarrow> run_loop ext kw parent_page_obj rest st')"

text \<open>
  \<^verbatim>\<open>run\<close> on the items of the document, in document order. A page model or a parent
  page that cannot be found ends the process (\<^verbatim>\<open>exit()\<close>) before any item is read.
  The returned tuple is read off the importer by \<open>run_result\<close>.
\<close>

definition run :: "('d, 'b) externals \<Rightarrow> kwargs \<Rightarrow> item list \<Rightarrow> importer \<times> 'd page list \<Rightarrow>
    error + (importer \<times> 'd page list)" where
  "run ext kw xml_doc st =
     (if \<not> model_found kw then Inl SystemExit
      else case parent_page kw of
             None \<Rightarrow> Inl SystemExit
           | Some parent_page_obj \<Rightarrow> run_loop ext kw parent_page_obj xml_doc st)"

definition run_result :: "importer \<Rightarrow> int \<times> int \<times> int \<times> log_entry list" where
  "run_result self = (log_imported self, log_skipped self, log_processed self, logged_items self)"

text \<open>Two importers with the same configuration: they differ at most in counters and log.\<close>

definition same_config :: "importer \<Rightarrow> importer \<Rightarrow> bool" where
  "same_config self self' =
     (mapping_item self' = mapping_item self \<and>
      mapping_valid_date self' = mapping_valid_date self \<and>
      mapping_valid_slug self' = mapping_valid_slug self \<and>
      mapping_stream_fields self' = mapping_stream_fields self \<and>
      mapping_item_inverse self' = mapping_item_inverse self)"

text \<open>The audit entry of a skipped record.\<close>

definition skipped_entry :: "item \<Rightarrow> log_entry" where
  "skipped_entry item =
     \<lparr>logged_item = item, log_result = ''skipped'', log_reason = ''no title or status match'',
      log_datecheck = LStr [], log_slugcheck = LStr []\<rparr>"

text \<open>The identities held by the rows of the store, row by row.\<close>

definition post_ids :: "'d page list \<Rightarrow> 'd pyval option list" where
  "post_ids store = map (\<lambda>p. attrs p ''wp_post_id'') store"

text \<open>
  The configuration stores the identity on the page: the target field \<^verbatim>\<open>wp_post_id\<close> is
  fed by the source field \<^verbatim>\<open>wp:post_id\<close> and is not a stream, date or slug field.
\<close>

definition identity_mapped :: "importer \<Rightarrow> bool" where
  "identity_mapped self =
     (distinct (map fst (mapping_item_inverse self)) \<and>
      map_of (mapping_item_inverse self) ''wp_post_id'' = Some ''wp:post_id'' \<and>
      ''wp_post_id'' \<notin> set (split_on CHR '','' (mapping_stream_fields self)) \<and>
      ''wp_post_id'' \<notin> set (split_on CHR '','' (mapping_valid_date self)) \<and>
      ''wp_post_id'' \<notin> set (split_on CHR '','' (mapping_valid_slug self)))"

text \<open>\<^verbatim>\<open>unpublish\<close> leaves the identity of the page as it is.\<close>

definition keeps_post_id :: "('d, 'b) externals \<Rightarrow> bool" where
  "keeps_post_id ext = (\<forall>p. attrs (unpublish ext p) ''wp_post_id'' = attrs p ''wp_post_id'')"

section \<open>Sample configuration and collaborators\<close>

text \<open>
  Concrete collaborators, a mapping and records, on which the definitions above are
  evaluated in the examples that follow the theorems. The sample \<open>slugify\<close> works
  in the manner of Django's on ASCII text: it coerces its argument to text, drops the
  characters outside ASCII (where Django first decomposes them), lower-cases, deletes
  what is neither a word character nor white space nor a hyphen, turns every run of
  hyphens and white space into one hyphen and strips hyphens and underscores from both
  ends; the sample \<open>make_aware\<close> keeps the fields of the timestamp; the
  sample style fixer turns \<^verbatim>\<open>~\<close> into \<^verbatim>\<open>#\<close> and the sample sanitizer deletes
  \<^verbatim>\<open>#\<close>, so the order of the two can be seen in the result.
\<close>

definition lower :: "char \<Rightarrow> char" where
  "lower c =
     (case map_of (zip ''ABCDEFGHIJKLMNOPQRSTUVWXYZ'' ''abcdefghijklmnopqrstuvwxyz'') c of
        None \<Rightarrow> c
      | Some l \<Rightarrow> l)"

definition is_space :: "char \<Rightarrow> bool" where
  "is_space c = (between (CHR 0x09) (CHR 0x0D) c \<or> between (CHR 0x1C) (CHR 0x1F) c \<or> one_of '' '' c)"

definition word_char :: "char \<Rightarrow> bool" where
  "word_char c =
     (between CHR ''a'' CHR ''z'' c \<or> between CHR ''A'' CHR ''Z'' c \<or> is_digit c \<or> one_of ''_'' c)"

text \<open>Every run of hyphens and white space becomes one hyphen; the flag tells that a run is open.\<close>

fun collapse :: "bool \<Rightarrow> string \<Rightarrow> string" where
  "collapse open_run [] = []"
| "collapse open_run (c # cs) =
     (if is_space c \<or> one_of ''-'' c
      then (if open_run then collapse True cs else CHR ''-'' # collapse True cs)
      else c # collapse False cs)"

definition strip_chars :: "string \<Rightarrow> string \<Rightarrow> string" where
  "strip_chars cs s = rev (dropWhile (one_of cs) (rev (dropWhile (one_of cs) s)))"

definition sample_slugify :: "string option \<Rightarrow> string" where
  "sample_slugify value =
     strip_chars ''-_''
       (collapse False
          (filter (\<lambda>c. word_char c \<or> is_space c \<or> one_of ''-'' c)
             (map lower (filter (\<lambda>c. (of_char c :: nat) < 128) (py_str value)))))"

definition sample_ext :: "(datetime, string list) externals" where
  "sample_ext =
     \<lparr>slugify = sample_slugify,
      make_aware = Inr,
      linebreaks_wp = (\<lambda>s. ''<p>'' @ s @ ''</p>''),
      fix_styles = map (\<lambda>c. if c = CHR ''~'' then CHR ''#'' else c),
      bleach_clean = filter (\<lambda>c. c \<noteq> CHR ''#''),
      build = (\<lambda>s. [s]),
      json_dumps = concat,
      json_dumps_indent = concat,
      unpublish = (\<lambda>p. p\<lparr>attrs := (attrs p)(''live'' \<mapsto> VBool False)\<rparr>)\<rparr>"

text \<open>The sample collaborators with a \<^verbatim>\<open>make_aware\<close> that raises on every timestamp.\<close>

definition strict_zone_ext :: "(datetime, string list) externals" where
  "strict_zone_ext = sample_ext\<lparr>make_aware := (\<lambda>t. Inl NonExistentTimeError)\<rparr>"

definition sample_mapping :: mapping where
  "sample_mapping =
     \<lparr>item_map = [(''title'', ''title''), (''wp:post_id'', ''wp_post_id''),
                  (''wp:post_date'', ''first_published_at''), (''wp:post_name'', ''slug''),
                  (''content:encoded'', ''body'')],
      validate_date = ''first_published_at'',
      validate_slug = ''slug'',
      stream_fields = ''body''\<rparr>"

definition sample_kwargs :: kwargs where
  "sample_kwargs =
     \<lparr>model_found = True, parent_page = Some 1,
      page_types = [''post'', ''page''], page_statuses = [''publish'', ''draft'']\<rparr>"

definition sample_post :: item where
  "sample_post =
     [''title'' \<mapsto> ''Hello World!'', ''wp:post_id'' \<mapsto> ''7'',
      ''wp:post_date'' \<mapsto> ''2021-03-04 05:06:07'', ''wp:post_name'' \<mapsto> ''hello-world'',
      ''content:encoded'' \<mapsto> ''text'', ''wp:post_type'' \<mapsto> ''post'',
      ''wp:status'' \<mapsto> ''publish'']"

definition sample_attachment :: item where
  "sample_attachment =
     [''title'' \<mapsto> ''Picture'', ''wp:post_id'' \<mapsto> ''8'',
      ''wp:post_type'' \<mapsto> ''attachment'', ''wp:status'' \<mapsto> ''inherit'']"

definition sample_undated :: item where
  "sample_undated =
     [''title'' \<mapsto> ''No date'', ''wp:post_id'' \<mapsto> ''9'',
      ''wp:post_name'' \<mapsto> ''no-date'', ''content:encoded'' \<mapsto> ''text'',
      ''wp:post_type'' \<mapsto> ''post'', ''wp:status'' \<mapsto> ''publish'']"

definition two_slug_importer :: importer where
  "two_slug_importer = (init sample_mapping)\<lparr>mapping_valid_slug := ''title,slug''\<rparr>"

definition sample_old_page :: "datetime page" where
  "sample_old_page =
     \<lparr>attrs = [''title'' \<mapsto> VStr ''Old'', ''live'' \<mapsto> VBool True], parent = Some 1\<rparr>"

definition sample_sentinel :: item where
  "sample_sentinel = sample_post(''wp:post_date'' \<mapsto> ''0000-00-00 00:00:00'')"

section \<open>Evaluation on concrete inputs\<close>

text \<open>The defining equations with which the examples are computed.\<close>

lemmas strptime_defs = strptime_def format_regex_def group_matches_def re_Y_def re_m_def re_d_def re_H_def re_M_def
  re_S_def is_digit_def between_def one_of_def py_int_def valid_datetime_def days_in_month_def
  is_leap_def

lemmas sample_defs = sample_ext_def sample_mapping_def sample_post_def sample_undated_def
  sample_attachment_def sample_kwargs_def sample_slugify_def lower_def is_space_def word_char_def
  strip_chars_def

lemmas get_values_defs = get_values_def init_def map_item_inverse_def inverse_entry_def
  parse_date_def parse_slug_def parse_stream_fields_def item_get_def py_str_def truthy_def
  source_value_def

lemmas run_defs = run_def run_item_def eligible_def py_in_def has_post_id_def create_page_def
  update_page_def run_result_def

section \<open>Properties of the mapping inversion\<close>

lemma split_on_nonempty: "split_on c s \<noteq> []"
  by (induction s) (auto split: list.splits)

lemma map_of_assign_each:
  "map_of (assign_each as key acc) a = (if a \<in> set as then Some key else map_of acc a)"
  by (induction as arbitrary: acc) (auto simp: update_conv')

lemma map_of_inverse_entry:
  "map_of (inverse_entry key value acc) a =
     (if a \<in> set (split_on CHR '','' value) then Some key else map_of acc a)"
proof (cases "split_on CHR '','' value")
  case Nil
  then show ?thesis using split_on_nonempty by blast
next
  case (Cons w ws)
  then show ?thesis
    by (cases ws) (auto simp: inverse_entry_def Let_def update_conv' map_of_assign_each)
qed

lemma map_of_inverse_loop_absent:
  "\<forall>(k, v) \<in> set m. a \<notin> set (split_on CHR '','' v) \<Longrightarrow>
   map_of (inverse_loop m acc) a = map_of acc a"
  by (induction m arbitrary: acc) (auto simp: map_of_inverse_entry)

lemma map_of_inverse_loop_append:
  "inverse_loop (xs @ ys) acc = inverse_loop ys (inverse_loop xs acc)"
  by (induction xs arbitrary: acc) auto

text \<open>
  C5. Every alias of a comma-separated list is sent by the inverted lookup to the key
  under which it is listed, and where an alias is listed under several keys the last
  entry listing it wins: if the entry \<open>(key, value)\<close> lists \<open>a\<close> and no later entry
  of the field map does, the inverse maps \<open>a\<close> to \<open>key\<close>, whatever earlier entries say.
\<close>

theorem map_item_inverse_last_wins:
  assumes "m = before @ (key, value) # after"
    and "a \<in> set (split_on CHR '','' value)"
    and "\<forall>(k, v) \<in> set after. a \<notin> set (split_on CHR '','' v)"
  shows "map_of (map_item_inverse m) a = Some key"
proof -
  have "map_of (map_item_inverse m) a =
        map_of (inverse_loop after (inverse_entry key value (inverse_loop before []))) a"
    using assms(1) by (simp add: map_item_inverse_def map_of_inverse_loop_append)
  also have "\<dots> = map_of (inverse_entry key value (inverse_loop before [])) a"
    using assms(3) by (rule map_of_inverse_loop_absent)
  also have "\<dots> = Some key"
    using assms(2) by (simp add: map_of_inverse_entry)
  finally show ?thesis .
qed


theorem map_item_inverse_last_wins_witness:
  "[(''content:encoded'', ''body,wp_raw_content''), (''excerpt:encoded'', ''excerpt,body'')] =
     [(''content:encoded'', ''body,wp_raw_content'')] @ (''excerpt:encoded'', ''excerpt,body'') # [] \<and>
   ''body'' \<in> set (split_on CHR '','' ''body,wp_raw_content'') \<and>
   ''body'' \<in> set (split_on CHR '','' ''excerpt,body'') \<and>
   map_of (map_item_inverse
     [(''content:encoded'', ''body,wp_raw_content''), (''excerpt:encoded'', ''excerpt,body'')])
     ''body'' = Some ''excerpt:encoded'' \<and>
   map_of (map_item_inverse
     [(''content:encoded'', ''body,wp_raw_content''), (''excerpt:encoded'', ''excerpt,body'')])
     ''wp_raw_content'' = Some ''content:encoded''"
proof -
  have h1: "[(''content:encoded'', ''body,wp_raw_content''), (''excerpt:encoded'', ''excerpt,body'')] =
     [(''content:encoded'', ''body,wp_raw_content'')] @ (''excerpt:encoded'', ''excerpt,body'') # []"
    by simp
  have h2: "''body'' \<in> set (split_on CHR '','' ''excerpt,body'')" by simp
  have h3: "\<forall>(k, v) \<in> set ([] :: (string \<times> string) list). ''body'' \<notin> set (split_on CHR '','' v)"
    by simp
  have g1: "[(''content:encoded'', ''body,wp_raw_content''), (''excerpt:encoded'', ''excerpt,body'')] =
     [] @ (''content:encoded'', ''body,wp_raw_content'') # [(''excerpt:encoded'', ''excerpt,body'')]"
    by simp
  have g2: "''wp_raw_content'' \<in> set (split_on CHR '','' ''body,wp_raw_content'')" by simp
  have g3: "\<forall>(k, v) \<in> set [(''excerpt:encoded'', ''excerpt,body'')].
              ''wp_raw_content'' \<notin> set (split_on CHR '','' v)"
    by simp
  have g4: "''body'' \<in> set (split_on CHR '','' ''body,wp_raw_content'')" by simp
  show ?thesis
    using map_item_inverse_last_wins [OF h1 h2 h3] map_item_inverse_last_wins [OF g1 g2 g3] g4 h2
    by simp
qed

section \<open>Properties of the slug normalizer\<close>

lemma collapse_chars:
  "c \<in> set (collapse open_run s) \<Longrightarrow>
   c = CHR ''-'' \<or> (c \<in> set s \<and> \<not> is_space c \<and> \<not> one_of ''-'' c)"
  by (induction s arbitrary: open_run) (auto split: if_splits)

lemma strip_chars_subset: "set (strip_chars cs s) \<subseteq> set s"
proof -
  have "set (strip_chars cs s) \<subseteq> set (dropWhile (one_of cs) s)"
    unfolding strip_chars_def using set_dropWhileD by fastforce
  also have "\<dots> \<subseteq> set s"
    using set_dropWhileD by fastforce
  finally show ?thesis .
qed

text \<open>The sample \<open>slugify\<close> yields letters, digits, hyphens and underscores only.\<close>

lemma sample_slugify_chars: "list_all slug_char (sample_slugify value)"
proof -
  have "slug_char c" if "c \<in> set (sample_slugify value)" for c
  proof -
    from that strip_chars_subset have
      "c \<in> set (collapse False
          (filter (\<lambda>c. word_char c \<or> is_space c \<or> one_of ''-'' c)
             (map lower (filter (\<lambda>c. (of_char c :: nat) < 128) (py_str value)))))"
      unfolding sample_slugify_def by blast
    from collapse_chars [OF this] show ?thesis
      by (auto simp: slug_char_def word_char_def one_of_def)
  qed
  then show ?thesis by (simp add: list_all_iff)
qed

text \<open>
  C3, as the code has it. The slug normalizer has three outcomes, \<^verbatim>\<open>blank slug\<close> (the
  spec's \<open>derived-from-title\<close>), \<^verbatim>\<open>OK\<close> (\<open>ok\<close>) and \<^verbatim>\<open>illegal chars found\<close>
  (\<open>illegal-characters-fixed\<close>). An absent or empty raw slug gives the slugified title
  and \<^verbatim>\<open>blank slug\<close>; a non-empty raw slug that slugifying leaves unchanged is returned
  as it is with \<^verbatim>\<open>OK\<close>; a non-empty raw slug that slugifying changes gives the
  slugified value and \<^verbatim>\<open>illegal chars found\<close>. The function is total: it has no failing
  branch. The slug it returns is \<^verbatim>\<open>slugify\<close> of the raw slug when that is not empty and
  \<^verbatim>\<open>slugify\<close> of the title otherwise; with a \<^verbatim>\<open>slugify\<close> that yields only letters,
  digits, hyphens and underscores, the slug is identifier-safe or it is the empty string.
\<close>

theorem parse_slug_outcomes:
  "(\<not> truthy value \<longrightarrow> parse_slug ext value title = (slugify ext title, ''blank slug'')) \<and>
   (s \<noteq> [] \<and> slugify ext (Some s) = s \<longrightarrow> parse_slug ext (Some s) title = (s, ''OK'')) \<and>
   (s \<noteq> [] \<and> slugify ext (Some s) \<noteq> s \<longrightarrow>
      parse_slug ext (Some s) title = (slugify ext (Some s), ''illegal chars found'')) \<and>
   fst (parse_slug ext value title) = slugify ext (if truthy value then value else title) \<and>
   ((\<forall>v. list_all slug_char (slugify ext v)) \<longrightarrow>
      fst (parse_slug ext value title) = [] \<or> identifier_safe (fst (parse_slug ext value title)))"
  by (auto simp: parse_slug_def truthy_def identifier_safe_def split: option.splits)

theorem parse_slug_outcomes_witness:
  "\<not> truthy None \<and>
   (\<forall>v. list_all slug_char (slugify sample_ext v)) \<and>
   parse_slug sample_ext None (Some ''Hello World!'') = (''hello-world'', ''blank slug'') \<and>
   parse_slug sample_ext (Some ''already-valid-slug'') (Some ''Hello World!'') =
     (''already-valid-slug'', ''OK'') \<and>
   parse_slug sample_ext (Some ''Bad Slug!'') (Some ''Hello World!'') =
     (''bad-slug'', ''illegal chars found'') \<and>
   identifier_safe (fst (parse_slug sample_ext None (Some ''Hello World!'')))"
proof -
  have e1: "slugify sample_ext (Some ''Hello World!'') = ''hello-world''"
    by (simp add: sample_defs py_str_def between_def is_digit_def one_of_def)
  have e2: "slugify sample_ext (Some ''already-valid-slug'') = ''already-valid-slug''"
    by (simp add: sample_defs py_str_def between_def is_digit_def one_of_def)
  have e3: "slugify sample_ext (Some ''Bad Slug!'') = ''bad-slug''"
    by (simp add: sample_defs py_str_def between_def is_digit_def one_of_def)
  have h1: "\<not> truthy None"
    by (simp add: truthy_def)
  have h2: "''already-valid-slug'' \<noteq> [] \<and>
            slugify sample_ext (Some ''already-valid-slug'') = ''already-valid-slug''"
    using e2 by simp
  have h3: "''Bad Slug!'' \<noteq> [] \<and> slugify sample_ext (Some ''Bad Slug!'') \<noteq> ''Bad Slug!''"
    using e3 by simp
  have h4: "\<forall>v. list_all slug_char (slugify sample_ext v)"
    by (simp add: sample_ext_def sample_slugify_chars)
  from h1 parse_slug_outcomes [of None sample_ext "Some ''Hello World!''" "''x''"]
  have a: "parse_slug sample_ext None (Some ''Hello World!'') =
        (slugify sample_ext (Some ''Hello World!''), ''blank slug'')"
    by blast
  from h2 parse_slug_outcomes [of None sample_ext "Some ''Hello World!''" "''already-valid-slug''"]
  have b: "parse_slug sample_ext (Some ''already-valid-slug'') (Some ''Hello World!'') =
        (''already-valid-slug'', ''OK'')"
    by blast
  from h3 parse_slug_outcomes [of None sample_ext "Some ''Hello World!''" "''Bad Slug!''"]
  have c: "parse_slug sample_ext (Some ''Bad Slug!'') (Some ''Hello World!'') =
        (slugify sample_ext (Some ''Bad Slug!''), ''illegal chars found'')"
    by blast
  from h4 parse_slug_outcomes [of None sample_ext "Some ''Hello World!''" "''x''"]
  have "fst (parse_slug sample_ext None (Some ''Hello World!'')) = [] \<or>
        identifier_safe (fst (parse_slug sample_ext None (Some ''Hello World!'')))"
    by blast
  with a e1 have d: "identifier_safe (fst (parse_slug sample_ext None (Some ''Hello World!'')))"
    by simp
  from h1 h4 a b c d e1 e3 show ?thesis
    by simp
qed

text \<open>
  With an empty raw slug and the title \<^verbatim>\<open>!!!\<close>, and with the raw slug \<^verbatim>\<open>!!!\<close>, nothing
  is left after slugifying: the slug returned is the empty string, which is not
  identifier-safe.
\<close>

theorem parse_slug_empty_counterexample:
  "parse_slug sample_ext None (Some ''!!!'') = ([], ''blank slug'') \<and>
   parse_slug sample_ext (Some ''!!!'') (Some ''Hello World!'') = ([], ''illegal chars found'') \<and>
   \<not> identifier_safe (fst (parse_slug sample_ext None (Some ''!!!''))) \<and>
   \<not> identifier_safe (fst (parse_slug sample_ext (Some ''!!!'') (Some ''Hello World!'')))"
  by (simp add: parse_slug_def truthy_def identifier_safe_def sample_defs py_str_def between_def
      is_digit_def one_of_def)

section \<open>Properties of the content normalizer\<close>

text \<open>
  C9. The content normalizer coerces its input to text and applies the legacy
  line-break conversion, then the style fixer to that result, then the sanitizer to the
  style fixer's result, then the block builder to the sanitized text. It returns the
  serialized blocks, the sanitized text and the blocks, in this order. The style fixer
  therefore sees the markup before the sanitizer does.
\<close>

theorem parse_stream_fields_order:
  "parse_stream_fields ext value =
     (json_dumps ext (build ext (bleach_clean ext (fix_styles ext (linebreaks_wp ext (py_str value))))),
      bleach_clean ext (fix_styles ext (linebreaks_wp ext (py_str value))),
      build ext (bleach_clean ext (fix_styles ext (linebreaks_wp ext (py_str value)))))"
  by (simp add: parse_stream_fields_def Let_def)

text \<open>
  On the sample stages the order shows: the style fixer runs on the unsanitized text, so
  the sanitizer deletes what the fixer wrote; with the two exchanged the mark would stay.
\<close>

lemma parse_stream_fields_sample:
  "parse_stream_fields sample_ext (Some ''a~b'') = (''<p>ab</p>'', ''<p>ab</p>'', [''<p>ab</p>'']) \<and>
   fix_styles sample_ext (bleach_clean sample_ext (linebreaks_wp sample_ext ''a~b'')) = ''<p>a#b</p>''"
  by (simp add: parse_stream_fields_def Let_def py_str_def sample_ext_def)

section \<open>Properties of reconciliation\<close>

text \<open>
  C7. \<^verbatim>\<open>create_page\<close> builds the new page from the transformed fields, sets
  \<^verbatim>\<open>live\<close> to false for the status \<^verbatim>\<open>draft\<close> and to true for every other status,
  adds it to the store under the parent and returns \<^verbatim>\<open>created\<close>.
  \<^verbatim>\<open>update_page\<close> writes every transformed field over the existing page and leaves its
  other attributes as they are, saves it, calls \<^verbatim>\<open>unpublish\<close> if and only if the
  status is \<^verbatim>\<open>draft\<close>, and returns \<^verbatim>\<open>updated\<close>; it does not set \<^verbatim>\<open>live\<close> itself,
  so without a \<^verbatim>\<open>live\<close> among the transformed fields and for a status other than
  \<^verbatim>\<open>draft\<close> the flag stays what it was.
\<close>

theorem create_update_page:
  "create_page parent_page_obj store values status =
     ((\<lparr>attrs = values(''live'' \<mapsto> VBool (status \<noteq> Some ''draft'')),
        parent = Some parent_page_obj\<rparr>, ''created''),
      store @ [\<lparr>attrs = values(''live'' \<mapsto> VBool (status \<noteq> Some ''draft'')),
                parent = Some parent_page_obj\<rparr>]) \<and>
   (\<exists>saved.
      (\<forall>k v. values k = Some v \<longrightarrow> attrs saved k = Some v) \<and>
      (\<forall>k. values k = None \<longrightarrow> attrs saved k = attrs (store ! i) k) \<and>
      parent saved = parent (store ! i) \<and>
      update_page ext store i values status =
        (((if status = Some ''draft'' then unpublish ext saved else saved), ''updated''),
         store[i := (if status = Some ''draft'' then unpublish ext saved else saved)]))"
proof
  show "create_page parent_page_obj store values status =
     ((\<lparr>attrs = values(''live'' \<mapsto> VBool (status \<noteq> Some ''draft'')),
        parent = Some parent_page_obj\<rparr>, ''created''),
      store @ [\<lparr>attrs = values(''live'' \<mapsto> VBool (status \<noteq> Some ''draft'')),
                parent = Some parent_page_obj\<rparr>])"
    by (simp add: create_page_def Let_def)
next
  let ?saved = "(store ! i)\<lparr>attrs := attrs (store ! i) ++ values\<rparr>"
  have "\<forall>k v. values k = Some v \<longrightarrow> attrs ?saved k = Some v"
    by (simp add: map_add_Some_iff)
  moreover have "\<forall>k. values k = None \<longrightarrow> attrs ?saved k = attrs (store ! i) k"
    by (simp add: map_add_def)
  moreover have "parent ?saved = parent (store ! i)"
    by simp
  moreover have "update_page ext store i values status =
        (((if status = Some ''draft'' then unpublish ext ?saved else ?saved), ''updated''),
         store[i := (if status = Some ''draft'' then unpublish ext ?saved else ?saved)])"
    by (simp add: update_page_def Let_def)
  ultimately show "\<exists>saved.
      (\<forall>k v. values k = Some v \<longrightarrow> attrs saved k = Some v) \<and>
      (\<forall>k. values k = None \<longrightarrow> attrs saved k = attrs (store ! i) k) \<and>
      parent saved = parent (store ! i) \<and>
      update_page ext store i values status =
        (((if status = Some ''draft'' then unpublish ext saved else saved), ''updated''),
         store[i := (if status = Some ''draft'' then unpublish ext saved else saved)])"
    by blast
qed



theorem create_update_page_witness:
  "[''title'' \<mapsto> VStr ''New''] ''title'' = Some (VStr ''New'') \<and>
   [''title'' \<mapsto> VStr ''New''] ''live'' = None \<and>
   attrs (fst (fst (update_page sample_ext [sample_old_page] 0 [''title'' \<mapsto> VStr ''New'']
                      (Some ''publish'')))) ''title'' = Some (VStr ''New'') \<and>
   attrs (fst (fst (update_page sample_ext [sample_old_page] 0 [''title'' \<mapsto> VStr ''New'']
                      (Some ''publish'')))) ''live'' = Some (VBool True)"
proof -
  let ?vs = "[''title'' \<mapsto> VStr ''New''] :: string \<rightharpoonup> datetime pyval"
  have h1: "?vs ''title'' = Some (VStr ''New'')" by simp
  have h2: "?vs ''live'' = None" by simp
  from create_update_page [of 1 "[sample_old_page]" ?vs "Some ''publish''" 0 sample_ext]
  obtain saved where
    a: "\<forall>k v. ?vs k = Some v \<longrightarrow> attrs saved k = Some v" and
    b: "\<forall>k. ?vs k = None \<longrightarrow> attrs saved k = attrs ([sample_old_page] ! 0) k" and
    c: "update_page sample_ext [sample_old_page] 0 ?vs (Some ''publish'') =
          (((if Some ''publish'' = Some ''draft'' then unpublish sample_ext saved else saved),
            ''updated''),
           [sample_old_page][0 := (if Some ''publish'' = Some ''draft''
                                   then unpublish sample_ext saved else saved)])"
    by blast
  from c have "fst (fst (update_page sample_ext [sample_old_page] 0 ?vs (Some ''publish''))) = saved"
    by simp
  moreover from a h1 have "attrs saved ''title'' = Some (VStr ''New'')" by blast
  moreover from b h2 have "attrs saved ''live'' = Some (VBool True)"
    by (simp add: sample_old_page_def)
  ultimately show ?thesis using h1 h2 by simp
qed

section \<open>Properties of record transformation\<close>

lemma get_values_Inr:
  assumes "get_values ext self item = Inr (page_values, date_valid, slug_changed)"
  shows "\<exists>pv0 pv1 dvs.
           copy_fields (mapping_item_inverse self) item Map.empty = Inr pv0 \<and>
           date_loop ext (mapping_item_inverse self) (split_on CHR '','' (mapping_valid_date self)) item
             (stream_loop ext (mapping_item_inverse self)
                (split_on CHR '','' (mapping_stream_fields self)) item pv0, []) = Inr (pv1, dvs) \<and>
           slug_loop ext (mapping_item_inverse self) (split_on CHR '','' (mapping_valid_slug self)) item
             (pv1, LBool False) = (page_values, slug_changed) \<and>
           date_valid = list_all (\<lambda>b. b) dvs"
  using assms
  by (simp add: get_values_def Let_def split: sum.splits prod.splits)

lemma parse_date_flag:
  "parse_date ext value = Inr (d, valid) \<Longrightarrow> valid = (value \<noteq> Some ''0000-00-00 00:00:00'')"
  by (auto simp: parse_date_def Let_def split: if_splits option.splits sum.splits)

lemma date_loop_flags:
  "date_loop ext inverse_map names item (page_values, date_valid) = Inr (page_values', date_valid') \<Longrightarrow>
   date_valid' = date_valid @
       map (\<lambda>df. item_get item (map_of inverse_map df) \<noteq> Some ''0000-00-00 00:00:00'') names \<and>
   (\<forall>df \<in> set names. \<exists>d. parse_date ext (item_get item (map_of inverse_map df)) =
       Inr (d, item_get item (map_of inverse_map df) \<noteq> Some ''0000-00-00 00:00:00''))"
proof (induction names arbitrary: page_values date_valid)
  case Nil
  then show ?case by simp
next
  case (Cons df rest)
  from Cons.prems obtain date where
    pd: "parse_date ext (item_get item (map_of inverse_map df)) = Inr date" and
    rec: "date_loop ext inverse_map rest item
            (page_values(df \<mapsto> VDate (fst date)), date_valid @ [snd date]) =
          Inr (page_values', date_valid')"
    by (auto split: sum.splits)
  from pd have flag: "snd date = (item_get item (map_of inverse_map df) \<noteq> Some ''0000-00-00 00:00:00'')"
    using parse_date_flag [of ext "item_get item (map_of inverse_map df)" "fst date" "snd date"]
    by simp
  from Cons.IH [OF rec] pd flag show ?case
    by (cases date) auto
qed

text \<open>
  C8. The date validity flag of a transformed record is the conjunction of the flags
  \<^verbatim>\<open>parse_date\<close> returns for the configured date fields: it is true exactly when every
  date field is parsed with the flag true, which is exactly when no date field holds the
  sentinel that the fallback date replaces.
\<close>

theorem date_valid_is_conjunction:
  assumes "get_values ext self item = Inr (page_values, date_valid, slug_changed)"
  shows "date_valid =
           (\<forall>df \<in> set (split_on CHR '','' (mapping_valid_date self)).
              \<exists>d. parse_date ext (source_value self item df) = Inr (d, True)) \<and>
         date_valid =
           (\<forall>df \<in> set (split_on CHR '','' (mapping_valid_date self)).
              source_value self item df \<noteq> Some ''0000-00-00 00:00:00'')"
proof -
  let ?fields = "split_on CHR '','' (mapping_valid_date self)"
  from get_values_Inr [OF assms] obtain pv0 pv1 dvs where
    dl: "date_loop ext (mapping_item_inverse self) ?fields item (pv0, []) = Inr (pv1, dvs)" and
    dv: "date_valid = list_all (\<lambda>b. b) dvs"
    by blast
  from date_loop_flags [OF dl] have
    flags: "dvs = map (\<lambda>df. source_value self item df \<noteq> Some ''0000-00-00 00:00:00'') ?fields" and
    parsed: "\<forall>df \<in> set ?fields. \<exists>d. parse_date ext (source_value self item df) =
               Inr (d, source_value self item df \<noteq> Some ''0000-00-00 00:00:00'')"
    by (simp_all add: source_value_def)
  from dv flags have second: "date_valid =
      (\<forall>df \<in> set ?fields. source_value self item df \<noteq> Some ''0000-00-00 00:00:00'')"
    by (simp add: list_all_iff)
  have "(\<forall>df \<in> set ?fields. \<exists>d. parse_date ext (source_value self item df) = Inr (d, True)) =
        (\<forall>df \<in> set ?fields. source_value self item df \<noteq> Some ''0000-00-00 00:00:00'')"
  proof (intro ball_cong refl)
    fix df assume "df \<in> set ?fields"
    with parsed obtain d where
      "parse_date ext (source_value self item df) =
         Inr (d, source_value self item df \<noteq> Some ''0000-00-00 00:00:00'')"
      by blast
    then show "(\<exists>d. parse_date ext (source_value self item df) = Inr (d, True)) =
               (source_value self item df \<noteq> Some ''0000-00-00 00:00:00'')"
      by auto
  qed
  with second show ?thesis by simp
qed

theorem date_valid_is_conjunction_witness:
  "\<exists>page_values slug_changed.
     get_values sample_ext (init sample_mapping) sample_sentinel = Inr (page_values, False, slug_changed)"
proof -
  have "\<exists>r. get_values sample_ext (init sample_mapping) sample_sentinel = Inr r"
    by (auto simp add: get_values_defs sample_defs strptime_defs sample_sentinel_def)
  then obtain pv dv sc where
    g: "get_values sample_ext (init sample_mapping) sample_sentinel = Inr (pv, dv, sc)"
    by (metis prod_cases3)
  have "source_value (init sample_mapping) sample_sentinel ''first_published_at'' =
          Some ''0000-00-00 00:00:00''"
    by (simp add: get_values_defs sample_defs sample_sentinel_def)
  moreover have "''first_published_at'' \<in> set (split_on CHR '','' (mapping_valid_date (init sample_mapping)))"
    by (simp add: init_def sample_mapping_def)
  ultimately have "\<not> dv"
    using date_valid_is_conjunction [OF g] by blast
  with g show ?thesis by auto
qed

lemma slug_loop_last:
  "names \<noteq> [] \<Longrightarrow>
   snd (slug_loop ext inverse_map names item (page_values, slug_changed)) =
     LStr (snd (parse_slug ext (item_get item (map_of inverse_map (last names))) (item ''title'')))"
proof (induction names arbitrary: page_values slug_changed)
  case Nil
  then show ?case by simp
next
  case (Cons sf rest)
  show ?case
  proof (cases rest)
    case Nil
    then show ?thesis by (simp add: Let_def)
  next
    case (Cons sf' rest')
    with Cons.IH show ?thesis by (simp add: Let_def)
  qed
qed

text \<open>
  C10. The slug outcome of a transformed record is the outcome \<^verbatim>\<open>parse_slug\<close> returns
  for the last configured slug field: each slug field overwrites \<^verbatim>\<open>slug_changed\<close>, so
  the outcomes of the earlier slug fields are not reported.
\<close>

theorem slug_outcome_is_last:
  assumes "get_values ext self item = Inr (page_values, date_valid, slug_changed)"
  shows "slug_changed =
           LStr (snd (parse_slug ext
                        (source_value self item (last (split_on CHR '','' (mapping_valid_slug self))))
                        (item ''title'')))"
proof -
  let ?fields = "split_on CHR '','' (mapping_valid_slug self)"
  from get_values_Inr [OF assms] obtain pv1 where
    "slug_loop ext (mapping_item_inverse self) ?fields item (pv1, LBool False) =
       (page_values, slug_changed)"
    by blast
  then have
    "slug_changed = snd (slug_loop ext (mapping_item_inverse self) ?fields item (pv1, LBool False))"
    by simp
  then show ?thesis
    using slug_loop_last [of ?fields ext "mapping_item_inverse self" item pv1 "LBool False"]
    by (simp add: split_on_nonempty source_value_def)
qed


theorem slug_outcome_is_last_witness:
  "\<exists>page_values date_valid.
     get_values sample_ext two_slug_importer sample_post = Inr (page_values, date_valid, LStr ''OK'') \<and>
     snd (parse_slug sample_ext (source_value two_slug_importer sample_post ''title'')
            (sample_post ''title'')) = ''illegal chars found''"
proof -
  have "\<exists>r. get_values sample_ext two_slug_importer sample_post = Inr r"
    by (auto simp add: get_values_defs sample_defs strptime_defs two_slug_importer_def)
  then obtain pv dv sc where
    g: "get_values sample_ext two_slug_importer sample_post = Inr (pv, dv, sc)"
    by (metis prod_cases3)
  have l: "last (split_on CHR '','' (mapping_valid_slug two_slug_importer)) = ''slug''"
    by (simp add: two_slug_importer_def)
  have "snd (parse_slug sample_ext (source_value two_slug_importer sample_post ''slug'')
            (sample_post ''title'')) = ''OK''"
    by (simp add: get_values_defs sample_defs two_slug_importer_def is_digit_def between_def one_of_def)
  with slug_outcome_is_last [OF g] l have "sc = LStr ''OK''" by simp
  moreover have "snd (parse_slug sample_ext (source_value two_slug_importer sample_post ''title'')
            (sample_post ''title'')) = ''illegal chars found''"
    by (simp add: get_values_defs sample_defs two_slug_importer_def is_digit_def between_def one_of_def)
  ultimately show ?thesis using g by auto
qed

lemma copy_fields_missing:
  "(field, source) \<in> set inverse_map \<Longrightarrow> item source = None \<Longrightarrow>
   copy_fields inverse_map item pv = Inl KeyError"
proof (induction inverse_map arbitrary: pv)
  case Nil
  then show ?case by simp
next
  case (Cons entry rest)
  then show ?case
    by (cases entry) (auto split: option.splits)
qed

text \<open>
  A target field whose source field is missing from the record makes the whole
  transformation fail.
\<close>

lemma get_values_missing_source:
  "(field, source) \<in> set (mapping_item_inverse self) \<Longrightarrow> item source = None \<Longrightarrow>
   get_values ext self item = Inl KeyError"
  by (simp add: get_values_def copy_fields_missing)

text \<open>
  C6. Where the source field of a mapped target field is missing from the record,
  \<^verbatim>\<open>get_values\<close> does not produce a value for it: the first loop reads the record with
  \<^verbatim>\<open>item[mapped]\<close> and raises \<^verbatim>\<open>KeyError\<close>, and for a date field the absent value
  that \<^verbatim>\<open>item.get\<close> returns makes \<^verbatim>\<open>parse_date\<close> raise \<^verbatim>\<open>AttributeError\<close>. On
  the sample record without a post date the transformation ends in the error.
\<close>

theorem get_values_unmatched_alias:
  "map_of (mapping_item_inverse (init sample_mapping)) ''first_published_at'' = Some ''wp:post_date'' \<and>
   sample_undated ''wp:post_date'' = None \<and>
   get_values sample_ext (init sample_mapping) sample_undated = Inl KeyError \<and>
   parse_date sample_ext (source_value (init sample_mapping) sample_undated ''first_published_at'') =
     Inl AttributeError"
  by (simp add: get_values_defs sample_defs)



section \<open>Properties of the import session\<close>

lemma get_values_same_config:
  "same_config self self' \<Longrightarrow> get_values ext self' item = get_values ext self item"
  by (simp add: same_config_def get_values_def cong: sum.case_cong)

lemma same_config_refl: "same_config self self"
  by (simp add: same_config_def)

lemma same_config_trans:
  "same_config a b \<Longrightarrow> same_config b c \<Longrightarrow> same_config a c"
  by (simp add: same_config_def)

lemma run_item_skipped:
  "\<not> eligible kw item \<Longrightarrow>
   run_item ext kw parent_page_obj item (self, store) =
     Inr (self\<lparr>log_processed := log_processed self + 1,
               log_skipped := log_skipped self + 1,
               logged_items := logged_items self @ [skipped_entry item]\<rparr>, store)"
  by (simp add: run_item_def Let_def skipped_entry_def)

lemma run_item_eligible:
  assumes "eligible kw item"
    and "run_item ext kw parent_page_obj item (self, store) = Inr (self', store')"
  shows "\<exists>item_dict dates_valid slugs_valid outcome reason.
           get_values ext self item = Inr (item_dict, dates_valid, slugs_valid) \<and>
           (case first_index (has_post_id (item ''wp:post_id'')) store of
              Some i \<Rightarrow> store' = snd (update_page ext store i item_dict (item ''wp:status'')) \<and>
                        outcome = ''updated'' \<and> reason = ''existed''
            | None \<Rightarrow> store' = snd (create_page parent_page_obj store item_dict (item ''wp:status'')) \<and>
                      outcome = ''created'' \<and> reason = ''new'') \<and>
           self' = self\<lparr>log_processed := log_processed self + 1,
                        log_imported := log_imported self + 1,
                        logged_items := logged_items self @
                          [\<lparr>logged_item = item, log_result = outcome, log_reason = reason,
                            log_datecheck = LBool dates_valid, log_slugcheck = slugs_valid\<rparr>]\<rparr>"
proof -
  have gv: "get_values ext (self\<lparr>log_processed := log_processed self + 1\<rparr>) item =
            get_values ext self item"
    by (rule get_values_same_config) (simp add: same_config_def)
  from assms obtain item_dict dates_valid slugs_valid where
    g: "get_values ext self item = Inr (item_dict, dates_valid, slugs_valid)"
    by (cases "get_values ext self item") (auto simp: run_item_def Let_def gv)
  show ?thesis
  proof (cases "first_index (has_post_id (item ''wp:post_id'')) store")
    case None
    with assms g show ?thesis
      by (auto simp: run_item_def Let_def gv)
  next
    case (Some i)
    with assms g show ?thesis
      by (auto simp: run_item_def Let_def gv)
  qed
qed


lemma run_item_same_config:
  assumes "run_item ext kw parent_page_obj item (self, store) = Inr (self', store')"
  shows "same_config self self'"
proof (cases "eligible kw item")
  case True
  from run_item_eligible [OF True assms] show ?thesis
    by (auto simp: same_config_def)
next
  case False
  with assms show ?thesis
    by (auto simp: run_item_skipped same_config_def)
qed

lemma run_item_store:
  assumes "eligible kw item"
    and "run_item ext kw parent_page_obj item (self, store) = Inr (self', store')"
    and "same_config self self2"
  shows "\<exists>self2'. run_item ext kw parent_page_obj item (self2, store) = Inr (self2', store')"
proof -
  have gv: "get_values ext (self2\<lparr>log_processed := log_processed self2 + 1\<rparr>) item =
            get_values ext self item"
    using assms(3) by (intro get_values_same_config) (simp add: same_config_def)
  from run_item_eligible [OF assms(1,2)] obtain item_dict dates_valid slugs_valid where
    g: "get_values ext self item = Inr (item_dict, dates_valid, slugs_valid)" and
    st: "(case first_index (has_post_id (item ''wp:post_id'')) store of
              Some i \<Rightarrow> store' = snd (update_page ext store i item_dict (item ''wp:status''))
            | None \<Rightarrow> store' = snd (create_page parent_page_obj store item_dict (item ''wp:status'')))"
    by (auto split: option.splits)
  show ?thesis
    using assms(1) g st
    by (cases "first_index (has_post_id (item ''wp:post_id'')) store")
       (auto simp: run_item_def Let_def gv)
qed

lemma run_loop_counts:
  "run_loop ext kw parent_page_obj doc (self, store) = Inr (self', store') \<Longrightarrow>
   log_processed self' = log_processed self + int (length doc) \<and>
   log_imported self' = log_imported self + int (length (filter (eligible kw) doc)) \<and>
   log_skipped self' =
     log_skipped self + (int (length doc) - int (length (filter (eligible kw) doc))) \<and>
   same_config self self' \<and>
   (\<exists>new. logged_items self' = logged_items self @ new \<and> map logged_item new = doc \<and>
      (\<forall>e \<in> set new.
         if eligible kw (logged_item e)
         then log_result e = ''created'' \<or> log_result e = ''updated''
         else e = skipped_entry (logged_item e)))"
proof (induction doc arbitrary: self store)
  case Nil
  then show ?case by (simp add: same_config_def)
next
  case (Cons item rest)
  from Cons.prems obtain self1 store1 where
    step: "run_item ext kw parent_page_obj item (self, store) = Inr (self1, store1)" and
    rest: "run_loop ext kw parent_page_obj rest (self1, store1) = Inr (self', store')"
    by (auto split: sum.splits)
  from Cons.IH [OF rest] obtain new where
    p: "log_processed self' = log_processed self1 + int (length rest)" and
    i: "log_imported self' = log_imported self1 + int (length (filter (eligible kw) rest))" and
    s: "log_skipped self' =
          log_skipped self1 + (int (length rest) - int (length (filter (eligible kw) rest)))" and
    c: "same_config self1 self'" and
    l: "logged_items self' = logged_items self1 @ new" and
    m: "map logged_item new = rest" and
    e: "\<forall>e \<in> set new.
         if eligible kw (logged_item e)
         then log_result e = ''created'' \<or> log_result e = ''updated''
         else e = skipped_entry (logged_item e)"
    by blast
  have c1: "same_config self self'"
    using run_item_same_config [OF step] c by (rule same_config_trans)
  show ?case
  proof (cases "eligible kw item")
    case True
    from run_item_eligible [OF True step] obtain entry where
      s1: "log_processed self1 = log_processed self + 1"
          "log_imported self1 = log_imported self + 1"
          "log_skipped self1 = log_skipped self"
          "logged_items self1 = logged_items self @ [entry]" and
      en: "logged_item entry = item"
          "log_result entry = ''created'' \<or> log_result entry = ''updated''"
      by (auto split: option.splits)
    have "logged_items self' = logged_items self @ (entry # new) \<and>
          map logged_item (entry # new) = item # rest \<and>
          (\<forall>e \<in> set (entry # new).
             if eligible kw (logged_item e)
             then log_result e = ''created'' \<or> log_result e = ''updated''
             else e = skipped_entry (logged_item e))"
      using l m e s1 en True by simp
    then show ?thesis
      using p i s c1 s1 True by (intro conjI exI [of _ "entry # new"]) simp_all
  next
    case False
    from step False have
      s1: "log_processed self1 = log_processed self + 1"
          "log_imported self1 = log_imported self"
          "log_skipped self1 = log_skipped self + 1"
          "logged_items self1 = logged_items self @ [skipped_entry item]"
      by (auto simp: run_item_skipped)
    have "logged_items self' = logged_items self @ (skipped_entry item # new) \<and>
          map logged_item (skipped_entry item # new) = item # rest \<and>
          (\<forall>e \<in> set (skipped_entry item # new).
             if eligible kw (logged_item e)
             then log_result e = ''created'' \<or> log_result e = ''updated''
             else e = skipped_entry (logged_item e))"
      using l m e s1 False by (simp add: skipped_entry_def)
    then show ?thesis
      using p i s c1 s1 False by (intro conjI exI [of _ "skipped_entry item # new"]) simp_all
  qed
qed

lemma run_loop_filter:
  "run_loop ext kw parent_page_obj doc (self, store) = Inr (self', store') \<Longrightarrow>
   same_config self self2 \<Longrightarrow>
   \<exists>self2'. run_loop ext kw parent_page_obj (filter (eligible kw) doc) (self2, store) =
     Inr (self2', store')"
proof (induction doc arbitrary: self store self2)
  case Nil
  then show ?case by simp
next
  case (Cons item rest)
  from Cons.prems(1) obtain self1 store1 where
    step: "run_item ext kw parent_page_obj item (self, store) = Inr (self1, store1)" and
    rest: "run_loop ext kw parent_page_obj rest (self1, store1) = Inr (self', store')"
    by (auto split: sum.splits)
  show ?case
  proof (cases "eligible kw item")
    case True
    from run_item_store [OF True step Cons.prems(2)] obtain self3 where
      step2: "run_item ext kw parent_page_obj item (self2, store) = Inr (self3, store1)"
      by blast
    have "same_config self1 self3"
      using run_item_same_config [OF step] run_item_same_config [OF step2] Cons.prems(2)
      by (simp add: same_config_def)
    from Cons.IH [OF rest this] step2 True show ?thesis by simp
  next
    case False
    with step have "store1 = store" and "same_config self1 self2"
      using Cons.prems(2) run_item_same_config [OF step]
      by (auto simp: run_item_skipped same_config_def)
    from Cons.IH [OF rest this(2)] False \<open>store1 = store\<close> show ?thesis by simp
  qed
qed

text \<open>
  C4. A run of a new importer over \<open>N\<close> records of which \<open>E\<close> are eligible, that ends
  without an error, returns the counters imported \<open>= E\<close>, skipped \<open>= N - E\<close> and
  processed \<open>= N\<close>. Its audit log holds one entry per record, in document order; the
  entry of a record that is not eligible is \<^verbatim>\<open>skipped\<close> with the reason
  \<^verbatim>\<open>no title or status match\<close> and empty date and slug checks, the entry of an eligible
  record is \<^verbatim>\<open>created\<close> or \<^verbatim>\<open>updated\<close>. Only the eligible records are transformed and
  reconciled: the run over the eligible records alone also ends without an error and
  leaves the same store.
\<close>

theorem run_counts:
  assumes "run ext kw xml_doc (init m, store) = Inr (self', store')"
  shows "run_result self' =
           (int (length (filter (eligible kw) xml_doc)),
            int (length xml_doc) - int (length (filter (eligible kw) xml_doc)),
            int (length xml_doc),
            logged_items self') \<and>
         map logged_item (logged_items self') = xml_doc \<and>
         (\<forall>e \<in> set (logged_items self').
            \<not> eligible kw (logged_item e) \<longrightarrow>
              log_result e = ''skipped'' \<and> log_reason e = ''no title or status match'' \<and>
              log_datecheck e = LStr [] \<and> log_slugcheck e = LStr []) \<and>
         (\<forall>e \<in> set (logged_items self').
            eligible kw (logged_item e) \<longrightarrow>
              log_result e = ''created'' \<or> log_result e = ''updated'') \<and>
         (\<exists>self''. run ext kw (filter (eligible kw) xml_doc) (init m, store) = Inr (self'', store'))"
proof -
  from assms obtain parent_page_obj where
    par: "model_found kw" "parent_page kw = Some parent_page_obj" and
    loop: "run_loop ext kw parent_page_obj xml_doc (init m, store) = Inr (self', store')"
    by (auto simp: run_def split: if_splits option.splits)
  from run_loop_counts [OF loop] obtain new where
    cnt: "log_processed self' = int (length xml_doc)"
         "log_imported self' = int (length (filter (eligible kw) xml_doc))"
         "log_skipped self' = int (length xml_doc) - int (length (filter (eligible kw) xml_doc))" and
    lg: "logged_items self' = new" "map logged_item new = xml_doc" and
    en: "\<forall>e \<in> set new.
         if eligible kw (logged_item e)
         then log_result e = ''created'' \<or> log_result e = ''updated''
         else e = skipped_entry (logged_item e)"
    by (auto simp: init_def)
  have skipped: "\<forall>e \<in> set (logged_items self').
            \<not> eligible kw (logged_item e) \<longrightarrow>
              log_result e = ''skipped'' \<and> log_reason e = ''no title or status match'' \<and>
              log_datecheck e = LStr [] \<and> log_slugcheck e = LStr []"
  proof (intro ballI impI)
    fix e assume "e \<in> set (logged_items self')" and "\<not> eligible kw (logged_item e)"
    with en lg have "e = skipped_entry (logged_item e)" by auto
    then have "log_result e = log_result (skipped_entry (logged_item e))"
      "log_reason e = log_reason (skipped_entry (logged_item e))"
      "log_datecheck e = log_datecheck (skipped_entry (logged_item e))"
      "log_slugcheck e = log_slugcheck (skipped_entry (logged_item e))"
      by simp_all
    then show "log_result e = ''skipped'' \<and> log_reason e = ''no title or status match'' \<and>
              log_datecheck e = LStr [] \<and> log_slugcheck e = LStr []"
      by (simp add: skipped_entry_def)
  qed
  have imported: "\<forall>e \<in> set (logged_items self').
            eligible kw (logged_item e) \<longrightarrow>
              log_result e = ''created'' \<or> log_result e = ''updated''"
    using en lg by auto
  from run_loop_filter [OF loop same_config_refl] par
  have "\<exists>self''. run ext kw (filter (eligible kw) xml_doc) (init m, store) = Inr (self'', store')"
    by (simp add: run_def)
  with cnt lg skipped imported show ?thesis
    by (simp add: run_result_def)
qed

theorem run_counts_witness:
  "\<exists>self' store'.
     run sample_ext sample_kwargs [sample_post, sample_attachment, sample_sentinel]
       (init sample_mapping, []) = Inr (self', store') \<and>
     run_result self' = (2, 1, 3, logged_items self') \<and>
     map log_result (logged_items self') = [''created'', ''skipped'', ''updated'']"
proof -
  have "\<exists>r. run sample_ext sample_kwargs [sample_post, sample_attachment, sample_sentinel]
               (init sample_mapping, []) = Inr r"
    by (auto simp add: run_defs get_values_defs sample_defs strptime_defs sample_sentinel_def Let_def)
  then obtain self' store' where
    r: "run sample_ext sample_kwargs [sample_post, sample_attachment, sample_sentinel]
          (init sample_mapping, ([] :: datetime page list)) = Inr (self', store')"
    by (metis prod.exhaust)
  have e: "filter (eligible sample_kwargs) [sample_post, sample_attachment, sample_sentinel] =
           [sample_post, sample_sentinel]"
    by (simp add: eligible_def py_in_def sample_defs sample_sentinel_def)
  from run_counts [OF r] e have a: "run_result self' = (2, 1, 3, logged_items self')"
    by simp
  have b: "map log_result (logged_items self') = [''created'', ''skipped'', ''updated'']"
    using r
    by (auto simp add: run_defs get_values_defs sample_defs strptime_defs sample_sentinel_def Let_def)
  show ?thesis
    by (rule exI [of _ self'], rule exI [of _ store']) (use r a b in simp)
qed



section \<open>Identity and re-import\<close>

lemma first_index_None: "(first_index P xs = None) = (\<forall>x \<in> set xs. \<not> P x)"
  by (induction xs) auto

lemma first_index_Some: "first_index P xs = Some i \<Longrightarrow> i < length xs \<and> P (xs ! i)"
  by (induction xs arbitrary: i) (auto split: if_splits)

lemma has_post_id_iff:
  "(\<exists>p \<in> set store. has_post_id post_id p) = (map_option VStr post_id \<in> set (post_ids store))"
  by (force simp: has_post_id_def post_ids_def)

lemma copy_fields_other:
  "copy_fields inverse_map item pv0 = Inr pv \<Longrightarrow> field \<notin> fst ` set inverse_map \<Longrightarrow>
   pv field = pv0 field"
proof (induction inverse_map arbitrary: pv0)
  case Nil
  then show ?case by simp
next
  case (Cons entry rest)
  obtain f src where entry: "entry = (f, src)" by (cases entry)
  from Cons.prems(1) entry obtain v where
    rec: "copy_fields rest item (pv0(f \<mapsto> VStr v)) = Inr pv"
    by (auto split: option.splits)
  from Cons.IH [OF rec] Cons.prems(2) entry show ?case by simp
qed

lemma copy_fields_lookup:
  "distinct (map fst inverse_map) \<Longrightarrow> copy_fields inverse_map item pv0 = Inr pv \<Longrightarrow>
   map_of inverse_map field = Some source \<Longrightarrow>
   item source \<noteq> None \<and> pv field = map_option VStr (item source)"
proof (induction inverse_map arbitrary: pv0)
  case Nil
  then show ?case by simp
next
  case (Cons entry rest)
  obtain f src where entry: "entry = (f, src)" by (cases entry)
  from Cons.prems(2) entry obtain v where
    v: "item src = Some v" and
    rec: "copy_fields rest item (pv0(f \<mapsto> VStr v)) = Inr pv"
    by (auto split: option.splits)
  show ?case
  proof (cases "f = field")
    case True
    with Cons.prems(3) entry have src: "source = src" by simp
    from Cons.prems(1) entry True have "field \<notin> fst ` set rest" by auto
    then have "pv field = (pv0(f \<mapsto> VStr v)) field"
      using copy_fields_other [OF rec] by simp
    with True src v show ?thesis by simp
  next
    case False
    with Cons.prems entry have "map_of rest field = Some source" "distinct (map fst rest)"
      by auto
    from Cons.IH [OF this(2) rec this(1)] show ?thesis .
  qed
qed

lemma stream_loop_other:
  "field \<notin> set names \<Longrightarrow> field \<noteq> ''wp_processed_content'' \<Longrightarrow> field \<noteq> ''wp_block_json'' \<Longrightarrow>
   stream_loop ext inverse_map names item pv field = pv field"
  by (induction names arbitrary: pv) (auto split: prod.splits)

lemma date_loop_other:
  "date_loop ext inverse_map names item (pv, dvs) = Inr (pv', dvs') \<Longrightarrow> field \<notin> set names \<Longrightarrow>
   pv' field = pv field"
proof (induction names arbitrary: pv dvs)
  case Nil
  then show ?case by simp
next
  case (Cons df rest)
  from Cons.prems(1) obtain date where
    rec: "date_loop ext inverse_map rest item (pv(df \<mapsto> VDate (fst date)), dvs @ [snd date]) =
          Inr (pv', dvs')"
    by (auto split: sum.splits)
  from Cons.IH [OF rec] Cons.prems(2) show ?case by simp
qed

lemma slug_loop_other:
  "field \<notin> set names \<Longrightarrow>
   fst (slug_loop ext inverse_map names item (pv, sc)) field = pv field"
  by (induction names arbitrary: pv sc) (auto simp: Let_def)

lemma get_values_post_id:
  assumes "identity_mapped self"
    and "get_values ext self item = Inr (page_values, date_valid, slug_changed)"
  shows "item ''wp:post_id'' \<noteq> None \<and>
         page_values ''wp_post_id'' = map_option VStr (item ''wp:post_id'')"
proof -
  from get_values_Inr [OF assms(2)] obtain pv0 pv1 dvs where
    cf: "copy_fields (mapping_item_inverse self) item Map.empty = Inr pv0" and
    dl: "date_loop ext (mapping_item_inverse self) (split_on CHR '','' (mapping_valid_date self)) item
             (stream_loop ext (mapping_item_inverse self)
                (split_on CHR '','' (mapping_stream_fields self)) item pv0, []) = Inr (pv1, dvs)" and
    sl: "slug_loop ext (mapping_item_inverse self) (split_on CHR '','' (mapping_valid_slug self)) item
             (pv1, LBool False) = (page_values, slug_changed)"
    by blast
  from assms(1) have
    d: "distinct (map fst (mapping_item_inverse self))" and
    m: "map_of (mapping_item_inverse self) ''wp_post_id'' = Some ''wp:post_id''" and
    n1: "''wp_post_id'' \<notin> set (split_on CHR '','' (mapping_stream_fields self))" and
    n2: "''wp_post_id'' \<notin> set (split_on CHR '','' (mapping_valid_date self))" and
    n3: "''wp_post_id'' \<notin> set (split_on CHR '','' (mapping_valid_slug self))"
    by (simp_all add: identity_mapped_def)
  from copy_fields_lookup [OF d cf m] have
    a: "item ''wp:post_id'' \<noteq> None" and
    b: "pv0 ''wp_post_id'' = map_option VStr (item ''wp:post_id'')"
    by simp_all
  have "page_values ''wp_post_id'' = pv1 ''wp_post_id''"
    using slug_loop_other [OF n3, of ext "mapping_item_inverse self" item pv1 "LBool False"] sl
    by simp
  also have "\<dots> = stream_loop ext (mapping_item_inverse self)
                (split_on CHR '','' (mapping_stream_fields self)) item pv0 ''wp_post_id''"
    using date_loop_other [OF dl n2] .
  also have "\<dots> = pv0 ''wp_post_id''"
    using n1 by (simp add: stream_loop_other)
  finally show ?thesis using a b by simp
qed


lemma identity_mapped_same_config:
  "same_config self self' \<Longrightarrow> identity_mapped self \<Longrightarrow> identity_mapped self'"
  by (simp add: same_config_def identity_mapped_def)

lemma distinct_assign_each:
  "distinct (map fst acc) \<Longrightarrow> distinct (map fst (assign_each as key acc))"
  by (induction as arbitrary: acc) (auto simp: distinct_update)

lemma distinct_inverse_loop:
  "distinct (map fst acc) \<Longrightarrow> distinct (map fst (inverse_loop m acc))"
  by (induction m arbitrary: acc)
     (auto simp: inverse_entry_def Let_def distinct_update distinct_assign_each)

lemma distinct_map_item_inverse: "distinct (map fst (map_item_inverse m))"
  by (simp add: map_item_inverse_def distinct_inverse_loop)

lemma run_item_succeeds:
  "eligible kw item \<Longrightarrow> get_values ext self item = Inr r \<Longrightarrow>
   \<exists>st'. run_item ext kw parent_page_obj item (self, store) = Inr st'"
proof -
  assume e: "eligible kw item" and g: "get_values ext self item = Inr r"
  have gv: "get_values ext (self\<lparr>log_processed := log_processed self + 1\<rparr>) item =
            get_values ext self item"
    by (rule get_values_same_config) (simp add: same_config_def)
  obtain a b c where "r = (a, b, c)" by (cases r)
  with e g show ?thesis
    by (cases "first_index (has_post_id (item ''wp:post_id'')) store")
       (auto simp: run_item_def Let_def gv)
qed

lemma run_item_post_ids:
  assumes im: "identity_mapped self"
    and kp: "keeps_post_id ext"
    and el: "eligible kw item"
    and ri: "run_item ext kw parent_page_obj item (self, store) = Inr (self', store')"
  shows "\<exists>entry. logged_items self' = logged_items self @ [entry] \<and> logged_item entry = item \<and>
           (if map_option VStr (item ''wp:post_id'') \<in> set (post_ids store)
            then post_ids store' = post_ids store \<and> log_result entry = ''updated''
            else post_ids store' = post_ids store @ [map_option VStr (item ''wp:post_id'')] \<and>
                 log_result entry = ''created'')"
proof -
  from run_item_eligible [OF el ri] obtain item_dict dates_valid slugs_valid outcome reason where
    g: "get_values ext self item = Inr (item_dict, dates_valid, slugs_valid)" and
    c: "case first_index (has_post_id (item ''wp:post_id'')) store of
              Some i \<Rightarrow> store' = snd (update_page ext store i item_dict (item ''wp:status'')) \<and>
                        outcome = ''updated'' \<and> reason = ''existed''
            | None \<Rightarrow> store' = snd (create_page parent_page_obj store item_dict (item ''wp:status'')) \<and>
                      outcome = ''created'' \<and> reason = ''new''" and
    s: "self' = self\<lparr>log_processed := log_processed self + 1,
                        log_imported := log_imported self + 1,
                        logged_items := logged_items self @
                          [\<lparr>logged_item = item, log_result = outcome, log_reason = reason,
                            log_datecheck = LBool dates_valid, log_slugcheck = slugs_valid\<rparr>]\<rparr>"
    by blast
  from get_values_post_id [OF im g] have
    v: "item_dict ''wp_post_id'' = map_option VStr (item ''wp:post_id'')"
    by simp
  let ?entry = "\<lparr>logged_item = item, log_result = outcome, log_reason = reason,
                  log_datecheck = LBool dates_valid, log_slugcheck = slugs_valid\<rparr>"
  show ?thesis
  proof (cases "first_index (has_post_id (item ''wp:post_id'')) store")
    case None
    then have absent: "map_option VStr (item ''wp:post_id'') \<notin> set (post_ids store)"
      using has_post_id_iff [of store "item ''wp:post_id''"] by (simp add: first_index_None)
    from None c have "post_ids store' = post_ids store @ [map_option VStr (item ''wp:post_id'')]"
      and "outcome = ''created''"
      by (simp_all add: create_page_def Let_def post_ids_def v)
    with absent s show ?thesis
      by (intro exI [of _ ?entry]) simp
  next
    case (Some i)
    from first_index_Some [OF Some] have
      i: "i < length store" and h: "has_post_id (item ''wp:post_id'') (store ! i)"
      by simp_all
    from h have old: "attrs (store ! i) ''wp_post_id'' = map_option VStr (item ''wp:post_id'')"
      by (simp add: has_post_id_def)
    from i h have present: "map_option VStr (item ''wp:post_id'') \<in> set (post_ids store)"
      using has_post_id_iff [of store "item ''wp:post_id''"] by auto
    let ?saved = "(store ! i)\<lparr>attrs := attrs (store ! i) ++ item_dict\<rparr>"
    let ?obj = "if item ''wp:status'' = Some ''draft'' then unpublish ext ?saved else ?saved"
    have saved: "attrs ?saved ''wp_post_id'' = map_option VStr (item ''wp:post_id'')"
      using v old by (simp add: map_add_def split: option.splits)
    have obj: "attrs ?obj ''wp_post_id'' = attrs (store ! i) ''wp_post_id''"
      using saved old kp by (simp add: keeps_post_id_def)
    from Some c have st: "store' = store[i := ?obj]" and "outcome = ''updated''"
      by (simp_all add: update_page_def Let_def)
    have "post_ids store' = (post_ids store)[i := attrs ?obj ''wp_post_id'']"
      unfolding st post_ids_def by (simp add: map_update)
    also have "\<dots> = post_ids store"
      using i obj by (simp add: post_ids_def list_update_same_conv)
    finally have "post_ids store' = post_ids store" .
    with present s \<open>outcome = ''updated''\<close> show ?thesis
      by (intro exI [of _ ?entry]) simp
  qed
qed

lemma run_loop_first:
  "run_loop ext kw parent_page_obj doc (self, store) = Inr (self', store') \<Longrightarrow>
   identity_mapped self \<Longrightarrow> keeps_post_id ext \<Longrightarrow>
   set (post_ids store) \<subseteq> set (post_ids store') \<and>
   (\<forall>item \<in> set doc. eligible kw item \<longrightarrow>
      map_option VStr (item ''wp:post_id'') \<in> set (post_ids store') \<and>
      (\<exists>r. get_values ext self item = Inr r))"
proof (induction doc arbitrary: self store)
  case Nil
  then show ?case by simp
next
  case (Cons item rest)
  from Cons.prems(1) obtain self1 store1 where
    step: "run_item ext kw parent_page_obj item (self, store) = Inr (self1, store1)" and
    rest: "run_loop ext kw parent_page_obj rest (self1, store1) = Inr (self', store')"
    by (auto split: sum.splits)
  have sc: "same_config self self1" by (rule run_item_same_config [OF step])
  then have im1: "identity_mapped self1"
    using Cons.prems(2) by (rule identity_mapped_same_config)
  have gv: "\<And>it. get_values ext self1 it = get_values ext self it"
    using sc by (rule get_values_same_config)
  from Cons.IH [OF rest im1 Cons.prems(3)] have
    sub: "set (post_ids store1) \<subseteq> set (post_ids store')" and
    ids: "\<forall>it \<in> set rest. eligible kw it \<longrightarrow>
            map_option VStr (it ''wp:post_id'') \<in> set (post_ids store') \<and>
            (\<exists>r. get_values ext self it = Inr r)"
    by (simp_all add: gv)
  show ?case
  proof (cases "eligible kw item")
    case True
    from run_item_post_ids [OF Cons.prems(2,3) True step] have
      "set (post_ids store) \<subseteq> set (post_ids store1)" and
      "map_option VStr (item ''wp:post_id'') \<in> set (post_ids store1)"
      by (auto split: if_splits)
    moreover from run_item_eligible [OF True step] have "\<exists>r. get_values ext self item = Inr r"
      by blast
    ultimately show ?thesis using sub ids by auto
  next
    case False
    with step have "store1 = store" by (simp add: run_item_skipped)
    with sub ids False show ?thesis by auto
  qed
qed

lemma run_loop_second:
  "identity_mapped self \<Longrightarrow> keeps_post_id ext \<Longrightarrow>
   \<forall>item \<in> set doc. eligible kw item \<longrightarrow>
      map_option VStr (item ''wp:post_id'') \<in> set (post_ids store) \<and>
      (\<exists>r. get_values ext self item = Inr r) \<Longrightarrow>
   \<exists>self' store'.
     run_loop ext kw parent_page_obj doc (self, store) = Inr (self', store') \<and>
     post_ids store' = post_ids store \<and>
     (\<exists>new. logged_items self' = logged_items self @ new \<and> map logged_item new = doc \<and>
        (\<forall>e \<in> set new.
           log_result e = (if eligible kw (logged_item e) then ''updated'' else ''skipped'')))"
proof (induction doc arbitrary: self store)
  case Nil
  then show ?case by simp
next
  case (Cons item rest)
  have "\<exists>self1 store1 entry.
          run_item ext kw parent_page_obj item (self, store) = Inr (self1, store1) \<and>
          post_ids store1 = post_ids store \<and>
          logged_items self1 = logged_items self @ [entry] \<and> logged_item entry = item \<and>
          log_result entry = (if eligible kw item then ''updated'' else ''skipped'')"
  proof (cases "eligible kw item")
    case True
    with Cons.prems(3) obtain r where
      present: "map_option VStr (item ''wp:post_id'') \<in> set (post_ids store)" and
      g: "get_values ext self item = Inr r"
      by auto
    from run_item_succeeds [OF True g] obtain self1 store1 where
      step: "run_item ext kw parent_page_obj item (self, store) = Inr (self1, store1)"
      by (metis prod.exhaust)
    from run_item_post_ids [OF Cons.prems(1,2) True step] present True step show ?thesis
      by auto
  next
    case False
    then show ?thesis
      by (simp add: run_item_skipped skipped_entry_def)
  qed
  then obtain self1 store1 entry where
    step: "run_item ext kw parent_page_obj item (self, store) = Inr (self1, store1)" and
    ids: "post_ids store1 = post_ids store" and
    lg: "logged_items self1 = logged_items self @ [entry]" "logged_item entry = item"
        "log_result entry = (if eligible kw item then ''updated'' else ''skipped'')"
    by blast
  have sc: "same_config self self1" by (rule run_item_same_config [OF step])
  then have im1: "identity_mapped self1"
    using Cons.prems(1) by (rule identity_mapped_same_config)
  have gv: "\<And>it. get_values ext self1 it = get_values ext self it"
    using sc by (rule get_values_same_config)
  have "\<forall>it \<in> set rest. eligible kw it \<longrightarrow>
      map_option VStr (it ''wp:post_id'') \<in> set (post_ids store1) \<and>
      (\<exists>r. get_values ext self1 it = Inr r)"
    using Cons.prems(3) ids by (simp add: gv)
  from Cons.IH [OF im1 Cons.prems(2) this] obtain self' store' new where
    r: "run_loop ext kw parent_page_obj rest (self1, store1) = Inr (self', store')" and
    i2: "post_ids store' = post_ids store1" and
    l2: "logged_items self' = logged_items self1 @ new" "map logged_item new = rest"
        "\<forall>e \<in> set new.
           log_result e = (if eligible kw (logged_item e) then ''updated'' else ''skipped'')"
    by blast
  have a: "run_loop ext kw parent_page_obj (item # rest) (self, store) = Inr (self', store')"
    using step r by simp
  have b: "post_ids store' = post_ids store"
    using i2 ids by simp
  have "logged_items self' = logged_items self @ (entry # new) \<and>
      map logged_item (entry # new) = item # rest \<and>
      (\<forall>e \<in> set (entry # new).
           log_result e = (if eligible kw (logged_item e) then ''updated'' else ''skipped''))"
    using lg l2 by simp
  then have c: "\<exists>new. logged_items self' = logged_items self @ new \<and>
      map logged_item new = item # rest \<and>
      (\<forall>e \<in> set new.
           log_result e = (if eligible kw (logged_item e) then ''updated'' else ''skipped''))"
    by (rule exI [of _ "entry # new"])
  show ?case
    by (rule exI [of _ self'], rule exI [of _ store']) (use a b c in simp)
qed

lemma run_loop_append:
  "run_loop ext kw parent_page_obj (xs @ ys) st =
     (case run_loop ext kw parent_page_obj xs st of
        Inl e \<Rightarrow> Inl e
      | Inr st' \<Rightarrow> run_loop ext kw parent_page_obj ys st')"
  by (induction xs arbitrary: st) (auto split: sum.splits)

lemma run_item_update:
  assumes "eligible kw item"
    and "get_values ext self item = Inr (item_dict, dates_valid, slugs_valid)"
    and "first_index (has_post_id (item ''wp:post_id'')) store = Some i"
  shows "\<exists>self'. run_item ext kw parent_page_obj item (self, store) =
           Inr (self', snd (update_page ext store i item_dict (item ''wp:status'')))"
proof -
  have gv: "get_values ext (self\<lparr>log_processed := log_processed self + 1\<rparr>) item =
            get_values ext self item"
    by (rule get_values_same_config) (simp add: same_config_def)
  from assms show ?thesis
    by (simp add: run_item_def Let_def gv)
qed

text \<open>
  C1. The mapping table is configuration; let it store the identity on the page (the
  target field \<^verbatim>\<open>wp_post_id\<close> is fed by \<^verbatim>\<open>wp:post_id\<close> and is not a stream, date or
  slug field), and let \<^verbatim>\<open>unpublish\<close> keep it. If a run over a document ends without an
  error, then every eligible record has an identity and the store the run leaves holds a
  page with that identity. A second run over the same document against that store also
  ends without an error and creates no page: the store keeps its length and its
  identities, the log has one entry per record, and the outcome of every eligible record
  is \<^verbatim>\<open>updated\<close>, that of every other record \<^verbatim>\<open>skipped\<close>; none is \<^verbatim>\<open>created\<close>.
  Moreover, when the second run reaches an eligible record, the lookup by
  \<^verbatim>\<open>wp_post_id\<close> finds a page that carries the record's identity, and the run goes on
  with the store \<^verbatim>\<open>update_page\<close> leaves for that page and the record's transformed
  fields.
\<close>

theorem second_run_updates:
  assumes mapped: "map_of (map_item_inverse (item_map m)) ''wp_post_id'' = Some ''wp:post_id''"
    and kept: "''wp_post_id'' \<notin> set (split_on CHR '','' (stream_fields m)) \<union>
                 set (split_on CHR '','' (validate_date m)) \<union>
                 set (split_on CHR '','' (validate_slug m))"
    and unpub: "keeps_post_id ext"
    and first: "run ext kw xml_doc (init m, store) = Inr (self1, store1)"
  shows "(\<forall>item \<in> set xml_doc. eligible kw item \<longrightarrow>
            (\<exists>post_id. item ''wp:post_id'' = Some post_id \<and>
                       Some (VStr post_id) \<in> set (post_ids store1))) \<and>
         (\<exists>self2 store2.
            run ext kw xml_doc (init m, store1) = Inr (self2, store2) \<and>
            length store2 = length store1 \<and>
            post_ids store2 = post_ids store1 \<and>
            map logged_item (logged_items self2) = xml_doc \<and>
            (\<forall>e \<in> set (logged_items self2).
               log_result e = (if eligible kw (logged_item e) then ''updated'' else ''skipped''))) \<and>
         (\<forall>before item after. xml_doc = before @ item # after \<and> eligible kw item \<longrightarrow>
            (\<exists>self' store' i item_dict dates_valid slugs_valid self''.
               run ext kw before (init m, store1) = Inr (self', store') \<and>
               first_index (has_post_id (item ''wp:post_id'')) store' = Some i \<and>
               i < length store' \<and>
               attrs (store' ! i) ''wp_post_id'' = map_option VStr (item ''wp:post_id'') \<and>
               get_values ext (init m) item = Inr (item_dict, dates_valid, slugs_valid) \<and>
               run ext kw (before @ [item]) (init m, store1) =
                 Inr (self'', snd (update_page ext store' i item_dict (item ''wp:status'')))))"
proof -
  have im: "identity_mapped (init m)"
    using mapped kept by (simp add: identity_mapped_def init_def distinct_map_item_inverse)
  from first obtain parent_page_obj where
    par: "model_found kw" "parent_page kw = Some parent_page_obj" and
    loop: "run_loop ext kw parent_page_obj xml_doc (init m, store) = Inr (self1, store1)"
    by (auto simp: run_def split: if_splits option.splits)
  have run_eq: "\<And>doc st. run ext kw doc st = run_loop ext kw parent_page_obj doc st"
    using par by (simp add: run_def)
  from run_loop_first [OF loop im unpub] have
    stored: "\<forall>item \<in> set xml_doc. eligible kw item \<longrightarrow>
      map_option VStr (item ''wp:post_id'') \<in> set (post_ids store1) \<and>
      (\<exists>r. get_values ext (init m) item = Inr r)"
    by simp
  have c1: "\<forall>item \<in> set xml_doc. eligible kw item \<longrightarrow>
            (\<exists>post_id. item ''wp:post_id'' = Some post_id \<and>
                       Some (VStr post_id) \<in> set (post_ids store1))"
  proof (intro ballI impI)
    fix item assume "item \<in> set xml_doc" and "eligible kw item"
    with stored obtain r where
      s: "map_option VStr (item ''wp:post_id'') \<in> set (post_ids store1)" and
      g: "get_values ext (init m) item = Inr r"
      by blast
    obtain a b c where "r = (a, b, c)" by (cases r)
    with get_values_post_id [OF im, of ext item a b c] g obtain post_id where
      "item ''wp:post_id'' = Some post_id"
      by auto
    with s show "\<exists>post_id. item ''wp:post_id'' = Some post_id \<and>
                       Some (VStr post_id) \<in> set (post_ids store1)"
      by auto
  qed
  from run_loop_second [OF im unpub stored, of parent_page_obj] obtain self2 store2 new where
    r: "run_loop ext kw parent_page_obj xml_doc (init m, store1) = Inr (self2, store2)" and
    i2: "post_ids store2 = post_ids store1" and
    l2: "logged_items self2 = logged_items (init m) @ new" "map logged_item new = xml_doc"
        "\<forall>e \<in> set new.
           log_result e = (if eligible kw (logged_item e) then ''updated'' else ''skipped'')"
    by blast
  from i2 have "length (post_ids store2) = length (post_ids store1)" by simp
  then have len: "length store2 = length store1" by (simp add: post_ids_def)
  from l2 have lg: "logged_items self2 = new" by (simp add: init_def)
  have c2: "\<exists>self2 store2.
            run ext kw xml_doc (init m, store1) = Inr (self2, store2) \<and>
            length store2 = length store1 \<and>
            post_ids store2 = post_ids store1 \<and>
            map logged_item (logged_items self2) = xml_doc \<and>
            (\<forall>e \<in> set (logged_items self2).
               log_result e = (if eligible kw (logged_item e) then ''updated'' else ''skipped''))"
    using r i2 len lg l2 by (intro exI [of _ self2] exI [of _ store2]) (simp add: run_eq)
  have c3: "\<forall>before item after. xml_doc = before @ item # after \<and> eligible kw item \<longrightarrow>
            (\<exists>self' store' i item_dict dates_valid slugs_valid self''.
               run ext kw before (init m, store1) = Inr (self', store') \<and>
               first_index (has_post_id (item ''wp:post_id'')) store' = Some i \<and>
               i < length store' \<and>
               attrs (store' ! i) ''wp_post_id'' = map_option VStr (item ''wp:post_id'') \<and>
               get_values ext (init m) item = Inr (item_dict, dates_valid, slugs_valid) \<and>
               run ext kw (before @ [item]) (init m, store1) =
                 Inr (self'', snd (update_page ext store' i item_dict (item ''wp:status''))))"
  proof (intro allI impI)
    fix before item after
    assume a: "xml_doc = before @ item # after \<and> eligible kw item"
    then have doc: "xml_doc = before @ item # after" and el: "eligible kw item" by simp_all
    from stored doc have
      "\<forall>it \<in> set before. eligible kw it \<longrightarrow>
         map_option VStr (it ''wp:post_id'') \<in> set (post_ids store1) \<and>
         (\<exists>r. get_values ext (init m) it = Inr r)"
      by simp
    from run_loop_second [OF im unpub this, of parent_page_obj] obtain self' store' where
      rb: "run_loop ext kw parent_page_obj before (init m, store1) = Inr (self', store')" and
      ib: "post_ids store' = post_ids store1"
      by blast
    from run_loop_counts [OF rb] have sc: "same_config (init m) self'" by simp
    from stored doc el obtain r where
      s: "map_option VStr (item ''wp:post_id'') \<in> set (post_ids store')" and
      g: "get_values ext (init m) item = Inr r"
      using ib by auto
    obtain item_dict dates_valid slugs_valid where r3: "r = (item_dict, dates_valid, slugs_valid)"
      by (cases r)
    from s have "first_index (has_post_id (item ''wp:post_id'')) store' \<noteq> None"
      using has_post_id_iff [of store' "item ''wp:post_id''"] by (simp add: first_index_None)
    then obtain i where fi: "first_index (has_post_id (item ''wp:post_id'')) store' = Some i"
      by auto
    from first_index_Some [OF fi] have
      il: "i < length store'" and
      at: "attrs (store' ! i) ''wp_post_id'' = map_option VStr (item ''wp:post_id'')"
      by (simp_all add: has_post_id_def)
    have g': "get_values ext self' item = Inr (item_dict, dates_valid, slugs_valid)"
      using g r3 get_values_same_config [OF sc, of ext item] by simp
    from run_item_update [OF el g' fi, of parent_page_obj] obtain self'' where
      ri: "run_item ext kw parent_page_obj item (self', store') =
             Inr (self'', snd (update_page ext store' i item_dict (item ''wp:status'')))"
      by blast
    have "run ext kw (before @ [item]) (init m, store1) =
            Inr (self'', snd (update_page ext store' i item_dict (item ''wp:status'')))"
      using rb ri by (simp add: run_eq run_loop_append)
    with rb fi il at g r3 show
      "\<exists>self' store' i item_dict dates_valid slugs_valid self''.
               run ext kw before (init m, store1) = Inr (self', store') \<and>
               first_index (has_post_id (item ''wp:post_id'')) store' = Some i \<and>
               i < length store' \<and>
               attrs (store' ! i) ''wp_post_id'' = map_option VStr (item ''wp:post_id'') \<and>
               get_values ext (init m) item = Inr (item_dict, dates_valid, slugs_valid) \<and>
               run ext kw (before @ [item]) (init m, store1) =
                 Inr (self'', snd (update_page ext store' i item_dict (item ''wp:status'')))"
      by (intro exI [of _ self'] exI [of _ store'] exI [of _ i] exI [of _ item_dict]
          exI [of _ dates_valid] exI [of _ slugs_valid] exI [of _ self'']) (simp add: run_eq)
  qed
  from c1 c2 c3 show ?thesis by (intro conjI)
qed

theorem second_run_updates_witness:
  "\<exists>self1 store1 self2 store2.
     run sample_ext sample_kwargs [sample_post, sample_attachment, sample_sentinel]
       (init sample_mapping, []) = Inr (self1, store1) \<and>
     Some (VStr ''7'') \<in> set (post_ids store1) \<and>
     run sample_ext sample_kwargs [sample_post, sample_attachment, sample_sentinel]
       (init sample_mapping, store1) = Inr (self2, store2) \<and>
     length store2 = length store1 \<and>
     (\<forall>e \<in> set (logged_items self2). log_result e \<noteq> ''created'') \<and>
     (\<exists>i. first_index (has_post_id (sample_post ''wp:post_id'')) store1 = Some i)"
proof -
  let ?doc = "[sample_post, sample_attachment, sample_sentinel]"
  have h1: "map_of (map_item_inverse (item_map sample_mapping)) ''wp_post_id'' = Some ''wp:post_id''"
    by (simp add: sample_mapping_def map_item_inverse_def inverse_entry_def)
  have h2: "''wp_post_id'' \<notin> set (split_on CHR '','' (stream_fields sample_mapping)) \<union>
                 set (split_on CHR '','' (validate_date sample_mapping)) \<union>
                 set (split_on CHR '','' (validate_slug sample_mapping))"
    by (simp add: sample_mapping_def)
  have h3: "keeps_post_id sample_ext"
    by (simp add: keeps_post_id_def sample_ext_def)
  have "\<exists>r. run sample_ext sample_kwargs ?doc (init sample_mapping, []) = Inr r"
    by (auto simp add: run_defs get_values_defs sample_defs strptime_defs sample_sentinel_def Let_def)
  then obtain self1 store1 where
    h4: "run sample_ext sample_kwargs ?doc
          (init sample_mapping, ([] :: datetime page list)) = Inr (self1, store1)"
    by (metis prod.exhaust)
  have h5: "?doc = [] @ sample_post # [sample_attachment, sample_sentinel] \<and>
            eligible sample_kwargs sample_post"
    by (simp add: eligible_def py_in_def sample_kwargs_def sample_post_def)
  note second = second_run_updates [OF h1 h2 h3 h4]
  from second h5 have "\<exists>post_id. sample_post ''wp:post_id'' = Some post_id \<and>
                       Some (VStr post_id) \<in> set (post_ids store1)"
    by simp
  then have a: "Some (VStr ''7'') \<in> set (post_ids store1)"
    by (simp add: sample_post_def)
  from second obtain self2 store2 where
    r: "run sample_ext sample_kwargs ?doc (init sample_mapping, store1) = Inr (self2, store2)" and
    l: "length store2 = length store1" and
    e: "\<forall>e \<in> set (logged_items self2).
          log_result e = (if eligible sample_kwargs (logged_item e) then ''updated'' else ''skipped'')"
    by blast
  from e have b: "\<forall>e \<in> set (logged_items self2). log_result e \<noteq> ''created''"
    by auto
  from second h5 obtain self' store' i where
    "run sample_ext sample_kwargs [] (init sample_mapping, store1) = Inr (self', store')" and
    "first_index (has_post_id (sample_post ''wp:post_id'')) store' = Some i"
    by blast
  then have c: "\<exists>i. first_index (has_post_id (sample_post ''wp:post_id'')) store1 = Some i"
    by (auto simp: run_def sample_kwargs_def)
  from h4 a r l b c show ?thesis
    by (intro exI [of _ self1] exI [of _ store1] exI [of _ self2] exI [of _ store2]) simp
qed


section \<open>Properties of the date normalizer\<close>

lemma char_eq_code: "(c = d) = ((of_char c :: nat) = of_char d)"
  by simp

lemma join_cons_head: "join sep ((x # w) # ws) = x # join sep (w # ws)"
  by (cases ws) auto

lemma join_split_on:
  "join [c'] (split_on c s) = map (\<lambda>x. if x = c then c' else x) s"
proof (induction s)
  case Nil
  then show ?case by simp
next
  case (Cons x xs)
  obtain w ws where sp: "split_on c xs = w # ws"
    using split_on_nonempty [of c xs] by (cases "split_on c xs") auto
  show ?case
  proof (cases "x = c")
    case True
    with sp Cons.IH show ?thesis by simp
  next
    case False
    with sp Cons.IH show ?thesis by (simp add: join_cons_head)
  qed
qed

text \<open>
  Two digits at a group: the two-digit alternatives match exactly when the number is in
  the group's range, and every other match is shorter and leaves the second digit.
\<close>

lemma re_m_matches:
  assumes "is_digit a" "is_digit b"
  shows "\<exists>short. group_matches
           [[one_of ''1'', between CHR ''0'' CHR ''2''],
            [one_of ''0'', between CHR ''1'' CHR ''9''],
            [between CHR ''1'' CHR ''9'']] (a # b # r) =
           (if 1 \<le> 10 * (of_char a - 48) + (of_char b - (48::nat)) \<and>
               10 * (of_char a - 48) + (of_char b - (48::nat)) \<le> 12
            then [([a, b], r)] else []) @ short \<and>
         (\<forall>(w, r') \<in> set short. r' = b # r)"
  using assms
  by (auto simp: group_matches_def is_digit_def between_def one_of_def char_eq_code [of _ "CHR ''1''"]
       char_eq_code [of _ "CHR ''0''"])

lemma re_d_matches:
  assumes "is_digit a" "is_digit b"
  shows "\<exists>short. group_matches
           [[one_of ''3'', between CHR ''0'' CHR ''1''],
            [between CHR ''1'' CHR ''2'', is_digit],
            [one_of ''0'', between CHR ''1'' CHR ''9''],
            [between CHR ''1'' CHR ''9''],
            [one_of '' '', between CHR ''1'' CHR ''9'']] (a # b # r) =
           (if 1 \<le> 10 * (of_char a - 48) + (of_char b - (48::nat)) \<and>
               10 * (of_char a - 48) + (of_char b - (48::nat)) \<le> 31
            then [([a, b], r)] else []) @ short \<and>
         (\<forall>(w, r') \<in> set short. r' = b # r)"
  using assms
  by (auto simp: group_matches_def is_digit_def between_def one_of_def char_eq_code [of _ "CHR ''3''"]
       char_eq_code [of _ "CHR ''0''"] char_eq_code [of _ "CHR '' ''"])

lemma re_H_matches:
  assumes "is_digit a" "is_digit b"
  shows "\<exists>short. group_matches
           [[one_of ''2'', between CHR ''0'' CHR ''3''],
            [between CHR ''0'' CHR ''1'', is_digit],
            [is_digit]] (a # b # r) =
           (if 10 * (of_char a - 48) + (of_char b - (48::nat)) \<le> 23
            then [([a, b], r)] else []) @ short \<and>
         (\<forall>(w, r') \<in> set short. r' = b # r)"
  using assms
  by (auto simp: group_matches_def is_digit_def between_def one_of_def char_eq_code [of _ "CHR ''2''"])

lemma re_M_matches:
  assumes "is_digit a" "is_digit b"
  shows "\<exists>short. group_matches
           [[between CHR ''0'' CHR ''5'', is_digit], [is_digit]] (a # b # r) =
           (if 10 * (of_char a - 48) + (of_char b - (48::nat)) \<le> 59
            then [([a, b], r)] else []) @ short \<and>
         (\<forall>(w, r') \<in> set short. r' = b # r)"
  using assms
  by (auto simp: group_matches_def is_digit_def between_def)

lemma re_S_matches:
  assumes "is_digit a" "is_digit b"
  shows "\<exists>short. group_matches
           [[one_of ''6'', between CHR ''0'' CHR ''1''],
            [between CHR ''0'' CHR ''5'', is_digit],
            [is_digit]] (a # b # r) =
           (if 10 * (of_char a - 48) + (of_char b - (48::nat)) \<le> 61
            then [([a, b], r)] else []) @ short \<and>
         (\<forall>(w, r') \<in> set short. r' = b # r)"
  using assms
  by (auto simp: group_matches_def is_digit_def between_def one_of_def char_eq_code [of _ "CHR ''6''"])

lemma regex_group_sep:
  assumes "\<exists>short. group_matches alts (a # b # c # r) =
               (if P then [([a, b], c # r)] else []) @ short \<and>
             (\<forall>(w, r') \<in> set short. r' = b # c # r)"
    and "\<not> q b"
  shows "regex_match (Group alts # Lit q # ts) (a # b # c # r) =
           (if P \<and> q c then map (\<lambda>(gs, r'). ([a, b] # gs, r')) (regex_match ts r) else [])"
proof -
  from assms(1) obtain short where
    g: "group_matches alts (a # b # c # r) = (if P then [([a, b], c # r)] else []) @ short" and
    s: "\<forall>(w, r') \<in> set short. r' = b # c # r"
    by blast
  have "concat (map (\<lambda>(w, r). map (\<lambda>(gs, r'). (w # gs, r')) (regex_match (Lit q # ts) r)) short) = []"
    using s assms(2) by auto
  with g show ?thesis by simp
qed

lemma regex_group_last:
  assumes "\<exists>short. group_matches alts [a, b] = (if P then [([a, b], [])] else []) @ short \<and>
             (\<forall>(w, r') \<in> set short. r' = [b])"
  shows "\<exists>more. regex_match [Group alts] [a, b] = (if P then [([[a, b]], [])] else []) @ more \<and>
           (\<forall>(gs, r') \<in> set more. r' \<noteq> [])"
proof -
  from assms obtain short where
    g: "group_matches alts [a, b] = (if P then [([a, b], [])] else []) @ short" and
    s: "\<forall>(w, r') \<in> set short. r' = [b]"
    by blast
  let ?more = "concat (map (\<lambda>(w, r). [([w], r)]) short)"
  have "regex_match [Group alts] [a, b] = (if P then [([[a, b]], [])] else []) @ ?more"
    using g by simp
  moreover have "\<forall>(gs, r') \<in> set ?more. r' \<noteq> []"
    using s by auto
  ultimately show ?thesis by blast
qed

lemma digit_not_sep:
  "is_digit c \<Longrightarrow> \<not> one_of ''-'' c \<and> \<not> one_of ''Tt'' c \<and> \<not> one_of '':'' c \<and> c \<noteq> CHR '' ''"
  by (auto simp: is_digit_def between_def one_of_def)

lemma py_int_two:
  "is_digit a \<Longrightarrow> py_int [a, b] = 10 * (of_char a - 48) + (of_char b - 48)"
  using digit_not_sep [of a] by (simp add: py_int_def)

lemma days_in_month_le: "days_in_month y m \<le> 31"
  by (simp add: days_in_month_def)

lemma strptime_error: "strptime s = Inl e \<Longrightarrow> e = ValueError"
  by (auto simp: strptime_def Let_def split: list.splits if_splits prod.splits)


lemma strptime_digits:
  assumes dg: "list_all is_digit [y1, y2, y3, y4, m1, m2, d1, d2, h1, h2, n1, n2, s1, s2]"
  shows "strptime [y1, y2, y3, y4, CHR ''-'', m1, m2, CHR ''-'', d1, d2, CHR ''T'',
                   h1, h2, CHR '':'', n1, n2, CHR '':'', s1, s2] =
         (if valid_datetime
               \<lparr>dt_year = py_int [y1, y2, y3, y4], dt_month = py_int [m1, m2],
                dt_day = py_int [d1, d2], dt_hour = py_int [h1, h2],
                dt_minute = py_int [n1, n2], dt_second = py_int [s1, s2]\<rparr>
          then Inr \<lparr>dt_year = py_int [y1, y2, y3, y4], dt_month = py_int [m1, m2],
                    dt_day = py_int [d1, d2], dt_hour = py_int [h1, h2],
                    dt_minute = py_int [n1, n2], dt_second = py_int [s1, s2]\<rparr>
          else Inl ValueError)"
proof -
  let ?t = "\<lparr>dt_year = py_int [y1, y2, y3, y4], dt_month = py_int [m1, m2],
             dt_day = py_int [d1, d2], dt_hour = py_int [h1, h2],
             dt_minute = py_int [n1, n2], dt_second = py_int [s1, s2]\<rparr>"
  let ?ds = "[y1, y2, y3, y4, CHR ''-'', m1, m2, CHR ''-'', d1, d2, CHR ''T'',
              h1, h2, CHR '':'', n1, n2, CHR '':'', s1, s2]"
  let ?all = "[[y1, y2, y3, y4], [m1, m2], [d1, d2], [h1, h2], [n1, n2], [s1, s2]]"
  from dg have d: "is_digit y1" "is_digit y2" "is_digit y3" "is_digit y4" "is_digit m1" "is_digit m2"
    "is_digit d1" "is_digit d2" "is_digit h1" "is_digit h2" "is_digit n1" "is_digit n2"
    "is_digit s1" "is_digit s2"
    by simp_all
  define Pm where "Pm = (1 \<le> py_int [m1, m2] \<and> py_int [m1, m2] \<le> 12)"
  define Pd where "Pd = (1 \<le> py_int [d1, d2] \<and> py_int [d1, d2] \<le> 31)"
  define Ph where "Ph = (py_int [h1, h2] \<le> 23)"
  define Pn where "Pn = (py_int [n1, n2] \<le> 59)"
  define Ps where "Ps = (py_int [s1, s2] \<le> 61)"
  from regex_group_last [OF re_S_matches [OF d(13,14)]] obtain more where
    S: "regex_match [re_S] [s1, s2] = (if Ps then [([[s1, s2]], [])] else []) @ more" and
    more: "\<forall>(gs, r') \<in> set more. r' \<noteq> []"
    by (auto simp: re_S_def Ps_def py_int_two [OF d(13)])
  have M: "regex_match (re_M # Lit (one_of '':'') # [re_S]) (n1 # n2 # CHR '':'' # [s1, s2]) =
           (if Pn then map (\<lambda>(gs, r'). ([n1, n2] # gs, r')) (regex_match [re_S] [s1, s2]) else [])"
    unfolding re_M_def Pn_def py_int_two [OF d(11)]
    using regex_group_sep [OF re_M_matches [OF d(11,12)], of "one_of '':''"] digit_not_sep [OF d(12)]
    by (simp add: one_of_def)
  have H: "regex_match (re_H # Lit (one_of '':'') # [re_M, Lit (one_of '':''), re_S])
             (h1 # h2 # CHR '':'' # [n1, n2, CHR '':'', s1, s2]) =
           (if Ph then map (\<lambda>(gs, r'). ([h1, h2] # gs, r'))
             (regex_match [re_M, Lit (one_of '':''), re_S] [n1, n2, CHR '':'', s1, s2]) else [])"
    unfolding re_H_def Ph_def py_int_two [OF d(9)]
    using regex_group_sep [OF re_H_matches [OF d(9,10)], of "one_of '':''"] digit_not_sep [OF d(10)]
    by (simp add: one_of_def)
  have D: "regex_match (re_d # Lit (one_of ''Tt'') # [re_H, Lit (one_of '':''), re_M, Lit (one_of '':''), re_S])
             (d1 # d2 # CHR ''T'' # [h1, h2, CHR '':'', n1, n2, CHR '':'', s1, s2]) =
           (if Pd then map (\<lambda>(gs, r'). ([d1, d2] # gs, r'))
             (regex_match [re_H, Lit (one_of '':''), re_M, Lit (one_of '':''), re_S]
                [h1, h2, CHR '':'', n1, n2, CHR '':'', s1, s2]) else [])"
    unfolding re_d_def Pd_def py_int_two [OF d(7)]
    using regex_group_sep [OF re_d_matches [OF d(7,8)], of "one_of ''Tt''"] digit_not_sep [OF d(8)]
    by (simp add: one_of_def)
  have Mo: "regex_match (re_m # Lit (one_of ''-'') #
               [re_d, Lit (one_of ''Tt''), re_H, Lit (one_of '':''), re_M, Lit (one_of '':''), re_S])
             (m1 # m2 # CHR ''-'' # [d1, d2, CHR ''T'', h1, h2, CHR '':'', n1, n2, CHR '':'', s1, s2]) =
           (if Pm then map (\<lambda>(gs, r'). ([m1, m2] # gs, r'))
             (regex_match [re_d, Lit (one_of ''Tt''), re_H, Lit (one_of '':''), re_M, Lit (one_of '':''), re_S]
                [d1, d2, CHR ''T'', h1, h2, CHR '':'', n1, n2, CHR '':'', s1, s2]) else [])"
    unfolding re_m_def Pm_def py_int_two [OF d(5)]
    using regex_group_sep [OF re_m_matches [OF d(5,6)], of "one_of ''-''"] digit_not_sep [OF d(6)]
    by (simp add: one_of_def)
  have Y: "regex_match format_regex ?ds =
           map (\<lambda>(gs, r'). ([y1, y2, y3, y4] # gs, r'))
             (regex_match [re_m, Lit (one_of ''-''), re_d, Lit (one_of ''Tt''), re_H, Lit (one_of '':''),
                           re_M, Lit (one_of '':''), re_S]
                [m1, m2, CHR ''-'', d1, d2, CHR ''T'', h1, h2, CHR '':'', n1, n2, CHR '':'', s1, s2])"
    using d(1-4) by (simp add: format_regex_def re_Y_def group_matches_def one_of_def)
  let ?push = "\<lambda>(gs, r'). ([y1, y2, y3, y4] # [m1, m2] # [d1, d2] # [h1, h2] # [n1, n2] # gs, r')"
  have R: "regex_match format_regex ?ds =
           (if Pm \<and> Pd \<and> Ph \<and> Pn
            then (if Ps then [(?all, [])] else []) @ map ?push more
            else [])"
    using Y Mo D H M S by (auto simp: case_prod_unfold)
  have ranges: "valid_datetime ?t \<Longrightarrow> Pm \<and> Pd \<and> Ph \<and> Pn \<and> Ps"
    using days_in_month_le [of "py_int [y1, y2, y3, y4]" "py_int [m1, m2]"]
    by (simp add: valid_datetime_def Pm_def Pd_def Ph_def Pn_def Ps_def)
  show ?thesis
  proof (cases "valid_datetime ?t")
    case True
    with ranges R show ?thesis
      by (simp add: strptime_def)
  next
    case False
    show ?thesis
    proof (cases "Pm \<and> Pd \<and> Ph \<and> Pn")
      case outer: True
      show ?thesis
      proof (cases Ps)
        case True
        with outer R False show ?thesis by (simp add: strptime_def)
      next
        case noS: False
        show ?thesis
        proof (cases more)
          case Nil
          with outer noS R False show ?thesis by (simp add: strptime_def)
        next
          case (Cons x xs)
          obtain gs r' where x: "x = (gs, r')" by (cases x)
          with more Cons have "r' \<noteq> []" by auto
          with outer noS R False Cons x show ?thesis by (simp add: strptime_def)
        qed
      qed
    next
      case False
      with R \<open>\<not> valid_datetime ?t\<close> show ?thesis by (simp add: strptime_def)
    qed
  qed
qed

lemma length_19:
  "length s = 19 \<Longrightarrow>
   \<exists>c0 c1 c2 c3 c4 c5 c6 c7 c8 c9 c10 c11 c12 c13 c14 c15 c16 c17 c18.
     s = [c0, c1, c2, c3, c4, c5, c6, c7, c8, c9, c10, c11, c12, c13, c14, c15, c16, c17, c18]"
  by (auto simp: eval_nat_numeral length_Suc_conv)

lemma wellformed_date_chars:
  assumes "wellformed_date s"
  shows "\<exists>y1 y2 y3 y4 m1 m2 d1 d2 h1 h2 n1 n2 s1 s2.
           s = [y1, y2, y3, y4, CHR ''-'', m1, m2, CHR ''-'', d1, d2, CHR '' '',
                h1, h2, CHR '':'', n1, n2, CHR '':'', s1, s2] \<and>
           list_all is_digit [y1, y2, y3, y4, m1, m2, d1, d2, h1, h2, n1, n2, s1, s2] \<and>
           timestamp_of s =
             \<lparr>dt_year = py_int [y1, y2, y3, y4], dt_month = py_int [m1, m2],
              dt_day = py_int [d1, d2], dt_hour = py_int [h1, h2],
              dt_minute = py_int [n1, n2], dt_second = py_int [s1, s2]\<rparr>"
proof -
  from assms have "length s = 19" by (simp add: wellformed_date_def)
  from length_19 [OF this] obtain c0 c1 c2 c3 c4 c5 c6 c7 c8 c9 c10 c11 c12 c13 c14 c15 c16 c17 c18
    where s: "s = [c0, c1, c2, c3, c4, c5, c6, c7, c8, c9, c10, c11, c12, c13, c14, c15, c16, c17, c18]"
    by blast
  from assms show ?thesis
    unfolding s by (simp add: wellformed_date_def timestamp_of_def)
qed

lemma parse_date_string:
  "v \<noteq> ''0000-00-00 00:00:00'' \<Longrightarrow>
   parse_date ext (Some v) =
     (case strptime (map (\<lambda>c. if c = CHR '' '' then CHR ''T'' else c) v) of
        Inl e \<Rightarrow> Inl ValueError
      | Inr t \<Rightarrow> with_flag True (make_aware ext t))"
  using strptime_error [of "map (\<lambda>c. if c = CHR '' '' then CHR ''T'' else c) v"]
  by (simp add: parse_date_def Let_def with_flag_def join_split_on [of "CHR ''T''", simplified]
      split: sum.splits)

lemma parse_date_wellformed:
  assumes "wellformed_date v" and ns: "v \<noteq> ''0000-00-00 00:00:00''"
  shows "parse_date ext (Some v) =
           (if valid_datetime (timestamp_of v)
            then with_flag True (make_aware ext (timestamp_of v))
            else Inl ValueError)"
proof -
  from wellformed_date_chars [OF assms(1)] obtain y1 y2 y3 y4 m1 m2 d1 d2 h1 h2 n1 n2 s1 s2 where
    v: "v = [y1, y2, y3, y4, CHR ''-'', m1, m2, CHR ''-'', d1, d2, CHR '' '',
             h1, h2, CHR '':'', n1, n2, CHR '':'', s1, s2]" and
    dg: "list_all is_digit [y1, y2, y3, y4, m1, m2, d1, d2, h1, h2, n1, n2, s1, s2]" and
    ts: "timestamp_of v =
             \<lparr>dt_year = py_int [y1, y2, y3, y4], dt_month = py_int [m1, m2],
              dt_day = py_int [d1, d2], dt_hour = py_int [h1, h2],
              dt_minute = py_int [n1, n2], dt_second = py_int [s1, s2]\<rparr>"
    by blast
  from dg have "map (\<lambda>c. if c = CHR '' '' then CHR ''T'' else c) v =
        [y1, y2, y3, y4, CHR ''-'', m1, m2, CHR ''-'', d1, d2, CHR ''T'',
         h1, h2, CHR '':'', n1, n2, CHR '':'', s1, s2]"
    unfolding v by (simp add: digit_not_sep)
  with strptime_digits [OF dg] ts show ?thesis
    by (simp add: parse_date_string [OF ns])
qed

lemma sentinel_not_valid: "\<not> valid_datetime (timestamp_of ''0000-00-00 00:00:00'')"
  by (simp add: timestamp_of_def py_int_def valid_datetime_def)

text \<open>
  C2, as the code has it. \<open>with_flag valid (make_aware ext t)\<close> is what \<^verbatim>\<open>parse_date\<close>
  does with a timestamp \<open>t\<close> it has parsed: where \<^verbatim>\<open>make_aware\<close> returns the aware
  timestamp, \<^verbatim>\<open>parse_date\<close> returns it with the flag, and where \<^verbatim>\<open>make_aware\<close> raises,
  the exception leaves \<^verbatim>\<open>parse_date\<close> (the conjuncts on \<open>with_flag\<close>, and the last two
  for the well-formed text and the sentinel). With that:
  for the sentinel \<^verbatim>\<open>0000-00-00 00:00:00\<close> the timestamp is 1900-01-01 00:00:00 and
  the flag false; for a well-formed \<^verbatim>\<open>YYYY-MM-DD HH:MM:SS\<close> text whose numbers name a day
  of the calendar and a time of the day the timestamp is the one the text names and the
  flag true; a well-formed text other than the sentinel whose numbers name none fails
  with \<^verbatim>\<open>ValueError\<close>; any text other
  than the sentinel is handed to \<^verbatim>\<open>strptime\<close> with each blank replaced by \<^verbatim>\<open>T\<close>, fails
  with \<^verbatim>\<open>ValueError\<close> when \<^verbatim>\<open>strptime\<close> rejects it and gives the timestamp
  \<^verbatim>\<open>strptime\<close> reads with the flag true when \<^verbatim>\<open>strptime\<close> accepts it; so such a text
  fails exactly when \<^verbatim>\<open>strptime\<close> rejects it or \<^verbatim>\<open>make_aware\<close> raises.
\<close>

theorem parse_date_cases:
  "parse_date ext (Some ''0000-00-00 00:00:00'') =
     with_flag False (make_aware ext
       \<lparr>dt_year = 1900, dt_month = 1, dt_day = 1, dt_hour = 0, dt_minute = 0, dt_second = 0\<rparr>) \<and>
   (wellformed_date v \<and> valid_datetime (timestamp_of v) \<longrightarrow>
      parse_date ext (Some v) = with_flag True (make_aware ext (timestamp_of v))) \<and>
   (wellformed_date v \<and> v \<noteq> ''0000-00-00 00:00:00'' \<and> \<not> valid_datetime (timestamp_of v) \<longrightarrow>
      parse_date ext (Some v) = Inl ValueError) \<and>
   (v \<noteq> ''0000-00-00 00:00:00'' \<longrightarrow>
      parse_date ext (Some v) =
        (case strptime (map (\<lambda>c. if c = CHR '' '' then CHR ''T'' else c) v) of
           Inl e \<Rightarrow> Inl ValueError
         | Inr t \<Rightarrow> with_flag True (make_aware ext t))) \<and>
   (v \<noteq> ''0000-00-00 00:00:00'' \<longrightarrow>
      (\<exists>e. parse_date ext (Some v) = Inl e) =
        (case strptime (map (\<lambda>c. if c = CHR '' '' then CHR ''T'' else c) v) of
           Inl e \<Rightarrow> True
         | Inr t \<Rightarrow> \<exists>e. make_aware ext t = Inl e)) \<and>
   (make_aware ext t = Inr formatted \<longrightarrow>
      with_flag valid (make_aware ext t) = Inr (formatted, valid)) \<and>
   (make_aware ext t = Inl err \<longrightarrow> with_flag valid (make_aware ext t) = Inl err) \<and>
   (wellformed_date v \<and> valid_datetime (timestamp_of v) \<and>
    make_aware ext (timestamp_of v) = Inr formatted \<longrightarrow>
      parse_date ext (Some v) = Inr (formatted, True)) \<and>
   (make_aware ext
      \<lparr>dt_year = 1900, dt_month = 1, dt_day = 1, dt_hour = 0, dt_minute = 0, dt_second = 0\<rparr> =
      Inr formatted \<longrightarrow>
      parse_date ext (Some ''0000-00-00 00:00:00'') = Inr (formatted, False))"
proof (intro conjI impI)
  have "strptime ''1900-01-01T00:00:00'' =
          Inr \<lparr>dt_year = 1900, dt_month = 1, dt_day = 1, dt_hour = 0, dt_minute = 0, dt_second = 0\<rparr>"
    by (simp add: strptime_defs)
  then show "parse_date ext (Some ''0000-00-00 00:00:00'') =
     with_flag False (make_aware ext
       \<lparr>dt_year = 1900, dt_month = 1, dt_day = 1, dt_hour = 0, dt_minute = 0, dt_second = 0\<rparr>)"
    by (simp add: parse_date_def with_flag_def split: sum.splits)
next
  assume a: "wellformed_date v \<and> valid_datetime (timestamp_of v)"
  then have "v \<noteq> ''0000-00-00 00:00:00''"
    using sentinel_not_valid by auto
  with a show "parse_date ext (Some v) = with_flag True (make_aware ext (timestamp_of v))"
    by (simp add: parse_date_wellformed)
next
  assume "wellformed_date v \<and> v \<noteq> ''0000-00-00 00:00:00'' \<and> \<not> valid_datetime (timestamp_of v)"
  then show "parse_date ext (Some v) = Inl ValueError"
    by (simp add: parse_date_wellformed)
next
  assume "v \<noteq> ''0000-00-00 00:00:00''"
  then show "parse_date ext (Some v) =
        (case strptime (map (\<lambda>c. if c = CHR '' '' then CHR ''T'' else c) v) of
           Inl e \<Rightarrow> Inl ValueError
         | Inr t \<Rightarrow> with_flag True (make_aware ext t))"
    by (rule parse_date_string)
next
  assume "v \<noteq> ''0000-00-00 00:00:00''"
  then show "(\<exists>e. parse_date ext (Some v) = Inl e) =
        (case strptime (map (\<lambda>c. if c = CHR '' '' then CHR ''T'' else c) v) of
           Inl e \<Rightarrow> True
         | Inr t \<Rightarrow> \<exists>e. make_aware ext t = Inl e)"
    by (auto simp: parse_date_string with_flag_def split: sum.splits)
next
  assume "make_aware ext t = Inr formatted"
  then show "with_flag valid (make_aware ext t) = Inr (formatted, valid)"
    by (simp add: with_flag_def)
next
  assume "make_aware ext t = Inl err"
  then show "with_flag valid (make_aware ext t) = Inl err"
    by (simp add: with_flag_def)
next
  assume a: "wellformed_date v \<and> valid_datetime (timestamp_of v) \<and>
    make_aware ext (timestamp_of v) = Inr formatted"
  then have "v \<noteq> ''0000-00-00 00:00:00''"
    using sentinel_not_valid by auto
  with a show "parse_date ext (Some v) = Inr (formatted, True)"
    by (simp add: parse_date_wellformed with_flag_def)
next
  have "strptime ''1900-01-01T00:00:00'' =
          Inr \<lparr>dt_year = 1900, dt_month = 1, dt_day = 1, dt_hour = 0, dt_minute = 0, dt_second = 0\<rparr>"
    by (simp add: strptime_defs)
  moreover assume "make_aware ext
      \<lparr>dt_year = 1900, dt_month = 1, dt_day = 1, dt_hour = 0, dt_minute = 0, dt_second = 0\<rparr> =
      Inr formatted"
  ultimately show "parse_date ext (Some ''0000-00-00 00:00:00'') = Inr (formatted, False)"
    by (simp add: parse_date_def)
qed

theorem parse_date_cases_witness:
  "wellformed_date ''2021-03-04 05:06:07'' \<and>
   valid_datetime (timestamp_of ''2021-03-04 05:06:07'') \<and>
   parse_date sample_ext (Some ''2021-03-04 05:06:07'') =
     Inr (\<lparr>dt_year = 2021, dt_month = 3, dt_day = 4, dt_hour = 5, dt_minute = 6, dt_second = 7\<rparr>, True) \<and>
   parse_date sample_ext (Some ''0000-00-00 00:00:00'') =
     Inr (\<lparr>dt_year = 1900, dt_month = 1, dt_day = 1, dt_hour = 0, dt_minute = 0, dt_second = 0\<rparr>, False) \<and>
   wellformed_date ''2021-02-30 10:00:00'' \<and>
   \<not> valid_datetime (timestamp_of ''2021-02-30 10:00:00'') \<and>
   parse_date sample_ext (Some ''2021-02-30 10:00:00'') = Inl ValueError \<and>
   parse_date strict_zone_ext (Some ''2021-03-04 05:06:07'') = Inl NonExistentTimeError"
proof -
  let ?t = "\<lparr>dt_year = 2021, dt_month = 3, dt_day = 4, dt_hour = 5, dt_minute = 6, dt_second = 7\<rparr>"
  have w1: "wellformed_date ''2021-03-04 05:06:07''"
    by (simp add: wellformed_date_def is_digit_def between_def)
  have t1: "timestamp_of ''2021-03-04 05:06:07'' = ?t"
    by (simp add: timestamp_of_def py_int_def)
  have v1: "valid_datetime (timestamp_of ''2021-03-04 05:06:07'')"
    by (simp add: t1 valid_datetime_def days_in_month_def)
  have n1: "''2021-03-04 05:06:07'' \<noteq> ''0000-00-00 00:00:00''"
    by simp
  have w2: "wellformed_date ''2021-02-30 10:00:00''"
    by (simp add: wellformed_date_def is_digit_def between_def)
  have v2: "\<not> valid_datetime (timestamp_of ''2021-02-30 10:00:00'')"
    by (simp add: timestamp_of_def py_int_def valid_datetime_def days_in_month_def is_leap_def)
  have n2: "''2021-02-30 10:00:00'' \<noteq> ''0000-00-00 00:00:00''"
    by simp
  have m1: "make_aware sample_ext ?t = Inr ?t"
    by (simp add: sample_ext_def)
  have m2: "make_aware strict_zone_ext ?t = Inl NonExistentTimeError"
    by (simp add: strict_zone_ext_def)
  from parse_date_cases [of sample_ext "''2021-03-04 05:06:07''" ?t ?t True NonExistentTimeError]
    w1 v1 t1 m1
  have a: "parse_date sample_ext (Some ''2021-03-04 05:06:07'') = Inr (?t, True)"
    by simp
  from parse_date_cases [of sample_ext "''2021-02-30 10:00:00''" ?t ?t True NonExistentTimeError]
    w2 v2 n2
  have b: "parse_date sample_ext (Some ''2021-02-30 10:00:00'') = Inl ValueError"
    by simp
  from parse_date_cases [of strict_zone_ext "''2021-03-04 05:06:07''" ?t ?t True NonExistentTimeError]
    w1 v1 t1 m2
  have c: "parse_date strict_zone_ext (Some ''2021-03-04 05:06:07'') = Inl NonExistentTimeError"
    by simp
  from parse_date_cases [of sample_ext "''2021-03-04 05:06:07''" ?t ?t True NonExistentTimeError]
  have d: "parse_date sample_ext (Some ''0000-00-00 00:00:00'') =
     Inr (\<lparr>dt_year = 1900, dt_month = 1, dt_day = 1, dt_hour = 0, dt_minute = 0, dt_second = 0\<rparr>, False)"
    by (simp add: with_flag_def sample_ext_def)
  from w1 v1 a d w2 v2 b c show ?thesis by simp
qed

text \<open>
  The texts \<^verbatim>\<open>2020-1-2 3:4:5\<close> and \<^verbatim>\<open>2020-01-02T03:04:05\<close> are neither the sentinel
  nor of the form \<^verbatim>\<open>YYYY-MM-DD HH:MM:SS\<close>, and \<^verbatim>\<open>parse_date\<close> fails on neither:
  \<^verbatim>\<open>strptime\<close> accepts fields without a leading zero, and a text without blanks reaches
  it unchanged. The text \<^verbatim>\<open>2021-02-30 10:00:00\<close> has the form and is not the sentinel,
  and \<^verbatim>\<open>parse_date\<close> fails on it.
\<close>

theorem parse_date_lenient_counterexample:
  "\<not> wellformed_date ''2020-1-2 3:4:5'' \<and>
   ''2020-1-2 3:4:5'' \<noteq> ''0000-00-00 00:00:00'' \<and>
   parse_date sample_ext (Some ''2020-1-2 3:4:5'') =
     Inr (\<lparr>dt_year = 2020, dt_month = 1, dt_day = 2, dt_hour = 3, dt_minute = 4, dt_second = 5\<rparr>, True) \<and>
   \<not> wellformed_date ''2020-01-02T03:04:05'' \<and>
   ''2020-01-02T03:04:05'' \<noteq> ''0000-00-00 00:00:00'' \<and>
   parse_date sample_ext (Some ''2020-01-02T03:04:05'') =
     Inr (\<lparr>dt_year = 2020, dt_month = 1, dt_day = 2, dt_hour = 3, dt_minute = 4, dt_second = 5\<rparr>, True) \<and>
   wellformed_date ''2021-02-30 10:00:00'' \<and>
   ''2021-02-30 10:00:00'' \<noteq> ''0000-00-00 00:00:00'' \<and>
   parse_date sample_ext (Some ''2021-02-30 10:00:00'') = Inl ValueError"
  by (simp add: wellformed_date_def parse_date_def strptime_defs sample_ext_def)


end
